theory Spec2Isabelle
  imports Complex_Main "HOL-Library.Log_Nat"
begin

section \<open>Fixed-step integrators of \<open>ode.py\<close>\<close>

text \<open>
  The module \<open>ode.py\<close> has three functions, \<open>Euler\<close>, \<open>RK2\<close> and \<open>RK4\<close>, each of
  the shape
  \<^verbatim>\<open>
    h = (tf-ti)/N
    t = np.linspace(ti, tf, N)
    x = np.zeros(len(t))
    x[0] = xi
    for i in range(len(t)-1):
        x[i+1] = <update from x[i], t[i], h and f>
    return x
  \<close>
  The embedding keeps the three functions apart, as the source does. Three things
  the Python leaves implicit are made explicit:
  \<^item> the floating-point arithmetic is a parameter: a record of the operations
    \<open>+\<close>, \<open>-\<close>, \<open>*\<close>, \<open>/\<close>, the conversion of an integer to a float, the two
    comparisons, and whether dividing by the integer \<open>0\<close> raises. Whatever is proved
    for every such record holds for IEEE 754 binary64 in particular; the records
    \<open>binary64\<close> and \<open>numpy_float64\<close> below are that arithmetic, for Python's \<open>float\<close>
    and for NumPy's scalars, and \<open>exact\<close> is arithmetic without rounding;
  \<^item> the caller's \<open>f\<close> is a Python callable, so it may read and change state of its
    own. It takes the state of the world and returns the new one, and the steppers
    thread that state through the calls in the order the source makes them;
  \<^item> an exception is a value: \<open>Inl\<close> of the exception's class.

  The arrays are lists of values first. A second transcription, at the end of the
  definitions, has them as objects in a store, and is proved to compute the same
  values.
\<close>

subsection \<open>Exceptions and arithmetic\<close>

datatype py_error = ZeroDivisionError | ValueError | IndexError

record 'a arith =
  fadd :: "'a \<Rightarrow> 'a \<Rightarrow> 'a"
  fsub :: "'a \<Rightarrow> 'a \<Rightarrow> 'a"
  fmul :: "'a \<Rightarrow> 'a \<Rightarrow> 'a"
  fdiv :: "'a \<Rightarrow> 'a \<Rightarrow> 'a"
  from_int :: "int \<Rightarrow> 'a"
  feq :: "'a \<Rightarrow> 'a \<Rightarrow> bool"
  flt :: "'a \<Rightarrow> 'a \<Rightarrow> bool"
  div_zero_raises :: bool

text \<open>Arithmetic without rounding, on any ordered field (the rationals, the reals).\<close>

definition exact :: "('a::linordered_field) arith" where
  "exact = \<lparr>fadd = (+), fsub = (-), fmul = (*), fdiv = (/), from_int = of_int,
            feq = (=), flt = (<), div_zero_raises = True\<rparr>"

subsection \<open>IEEE 754 binary64\<close>

text \<open>
  A Python \<open>float\<close> and a NumPy \<open>float64\<close> are IEEE 754 binary64 values: a finite
  value is \<open>m * 2 ^ e\<close> with \<open>\<bar>m\<bar> < 2 ^ 53\<close> and \<open>-1074 \<le> e \<le> 971\<close>, there are two
  zeros, two infinities and NaN. \<open>Finite 0\<close> is \<open>+0.0\<close> and \<open>NegZero\<close> is \<open>-0.0\<close>;
  \<open>Infinity s\<close> is the negative infinity when \<open>s\<close> holds. Every operation returns the
  exact result rounded to the nearest such value, ties to the one with an even \<open>m\<close>,
  an infinity beyond the range, and a zero of the result's sign below it.
\<close>

datatype float64 = Finite rat | NegZero | Infinity bool | NaN

fun is_neg :: "float64 \<Rightarrow> bool" where
  "is_neg (Finite a) = (a < 0)"
| "is_neg NegZero = True"
| "is_neg (Infinity s) = s"
| "is_neg NaN = False"

fun is_zero :: "float64 \<Rightarrow> bool" where
  "is_zero (Finite a) = (a = 0)"
| "is_zero NegZero = True"
| "is_zero _ = False"

fun is_finite :: "float64 \<Rightarrow> bool" where
  "is_finite (Finite a) = True"
| "is_finite NegZero = True"
| "is_finite _ = False"

fun value64 :: "float64 \<Rightarrow> rat" where
  "value64 (Finite a) = a"
| "value64 _ = 0"

definition zero64 :: "bool \<Rightarrow> float64" where
  "zero64 s = (if s then NegZero else Finite 0)"

definition pow2 :: "int \<Rightarrow> rat" where
  "pow2 e = (if 0 \<le> e then 2 ^ nat e else 1 / 2 ^ nat (- e))"

text \<open>\<open>ilog2 q\<close> is \<open>\<lfloor>log\<^sub>2 \<bar>q\<bar>\<rfloor>\<close> for \<open>q \<noteq> 0\<close>, from the bit lengths of numerator and
  denominator.\<close>

definition ilog2 :: "rat \<Rightarrow> int" where
  "ilog2 q = (let (p, d) = quotient_of \<bar>q\<bar>; e = bitlen p - bitlen d
              in if pow2 e \<le> \<bar>q\<bar> then e else e - 1)"

definition round_half_even :: "rat \<Rightarrow> int" where
  "round_half_even r =
     (let n = \<lfloor>r\<rfloor>; d = r - of_int n
      in if d < 1 / 2 then n else if 1 / 2 < d then n + 1
         else if even n then n else n + 1)"

definition ulp_of :: "rat \<Rightarrow> rat" where
  "ulp_of q = pow2 (max (ilog2 q) (- 1022) - 52)"

text \<open>\<open>round64 q\<close> rounds the exact result \<open>q\<close> of an operation. An exact \<open>0\<close> is \<open>+0.0\<close>
  (as \<open>x - x\<close> is); a nonzero \<open>q\<close> that underflows keeps its sign.\<close>

definition round64 :: "rat \<Rightarrow> float64" where
  "round64 q =
     (if q = 0 then Finite 0
      else let u = ulp_of q; r = of_int (round_half_even (q / u)) * u
           in if pow2 1024 \<le> \<bar>r\<bar> then Infinity (q < 0)
              else if r = 0 then zero64 (q < 0)
              else Finite r)"

fun add64 :: "float64 \<Rightarrow> float64 \<Rightarrow> float64" where
  "add64 NaN _ = NaN"
| "add64 _ NaN = NaN"
| "add64 (Infinity s) (Infinity s') = (if s = s' then Infinity s else NaN)"
| "add64 (Infinity s) _ = Infinity s"
| "add64 _ (Infinity s) = Infinity s"
| "add64 NegZero NegZero = NegZero"
| "add64 x y = round64 (value64 x + value64 y)"

fun neg64 :: "float64 \<Rightarrow> float64" where
  "neg64 (Finite a) = (if a = 0 then NegZero else Finite (- a))"
| "neg64 NegZero = Finite 0"
| "neg64 (Infinity s) = Infinity (\<not> s)"
| "neg64 NaN = NaN"

definition sub64 :: "float64 \<Rightarrow> float64 \<Rightarrow> float64" where
  "sub64 a b = add64 a (neg64 b)"

fun mul64 :: "float64 \<Rightarrow> float64 \<Rightarrow> float64" where
  "mul64 NaN _ = NaN"
| "mul64 _ NaN = NaN"
| "mul64 (Infinity s) (Infinity s') = Infinity (s \<noteq> s')"
| "mul64 (Infinity s) y = (if is_zero y then NaN else Infinity (s \<noteq> is_neg y))"
| "mul64 x (Infinity s) = (if is_zero x then NaN else Infinity (is_neg x \<noteq> s))"
| "mul64 x y =
     (if is_zero x \<or> is_zero y then zero64 (is_neg x \<noteq> is_neg y)
      else round64 (value64 x * value64 y))"

text \<open>NumPy's division by a zero gives an infinity, or NaN for \<open>0 / 0\<close>, and, in its
  default error state, a warning. (Python's own \<open>float / int\<close> raises instead; see
  \<open>div_zero_raises\<close> below.)\<close>

fun div64 :: "float64 \<Rightarrow> float64 \<Rightarrow> float64" where
  "div64 NaN _ = NaN"
| "div64 _ NaN = NaN"
| "div64 (Infinity s) (Infinity s') = NaN"
| "div64 (Infinity s) y = Infinity (s \<noteq> is_neg y)"
| "div64 x (Infinity s) = zero64 (is_neg x \<noteq> s)"
| "div64 x y =
     (if is_zero y then (if is_zero x then NaN else Infinity (is_neg x \<noteq> is_neg y))
      else if is_zero x then zero64 (is_neg x \<noteq> is_neg y)
      else round64 (value64 x / value64 y))"

text \<open>\<open>==\<close> and \<open><\<close>: the two zeros are equal, and NaN compares with nothing.\<close>

fun eq64 :: "float64 \<Rightarrow> float64 \<Rightarrow> bool" where
  "eq64 NaN _ = False"
| "eq64 _ NaN = False"
| "eq64 (Infinity s) (Infinity s') = (s = s')"
| "eq64 (Infinity s) _ = False"
| "eq64 _ (Infinity s) = False"
| "eq64 x y = (value64 x = value64 y)"

fun lt64 :: "float64 \<Rightarrow> float64 \<Rightarrow> bool" where
  "lt64 NaN _ = False"
| "lt64 _ NaN = False"
| "lt64 (Infinity s) (Infinity s') = (s \<and> \<not> s')"
| "lt64 (Infinity s) _ = s"
| "lt64 _ (Infinity s) = (\<not> s)"
| "lt64 x y = (value64 x < value64 y)"

text \<open>
  \<open>binary64\<close> is the arithmetic of Python's builtin \<open>float\<close>, \<open>numpy_float64\<close> that of
  \<open>numpy.float64\<close>. They differ in one thing: dividing the builtin \<open>float\<close> by zero
  raises \<open>ZeroDivisionError\<close>, dividing a \<open>numpy.float64\<close> by zero returns an infinity or
  NaN.
\<close>

definition binary64 :: "float64 arith" where
  "binary64 = \<lparr>fadd = add64, fsub = sub64, fmul = mul64, fdiv = div64,
               from_int = (\<lambda>n. round64 (of_int n)), feq = eq64, flt = lt64,
               div_zero_raises = True\<rparr>"


subsection \<open>\<open>numpy.linspace\<close> and \<open>numpy.zeros\<close>\<close>

text \<open>
  NumPy is a library, not part of the repository. \<open>linspace\<close> follows
  \<open>numpy.linspace(start, stop, num)\<close> with its defaults (\<open>endpoint=True\<close>):
  \<^verbatim>\<open>
    if num < 0: raise ValueError(...)
    div = num - 1
    delta = stop - start
    y = arange(0, num)                       # 0.0, 1.0, ..., num-1
    if div > 0:
        step = delta / div
        if step == 0: y /= div; y *= delta   # a step that underflows
        else:         y *= step
    else:
        y = y * delta
    y += start
    if num > 1: y[-1] = stop
  \<close>
\<close>

definition linspace :: "'a arith \<Rightarrow> 'a \<Rightarrow> 'a \<Rightarrow> int \<Rightarrow> py_error + 'a list" where
  "linspace A start stop num =
     (if num < 0 then Inl ValueError
      else
        let dv = num - 1;
            delta = fsub A stop start;
            y = map (\<lambda>k. from_int A (int k)) [0..<nat num];
            y = (if 0 < dv then
                   (let step = fdiv A delta (from_int A dv)
                    in if feq A step (from_int A 0)
                       then map (\<lambda>v. fmul A (fdiv A v (from_int A dv)) delta) y
                       else map (\<lambda>v. fmul A v step) y)
                 else map (\<lambda>v. fmul A v delta) y);
            y = map (\<lambda>v. fadd A v start) y
        in Inr (if 1 < num then y[nat num - 1 := stop] else y))"

definition zeros :: "'a arith \<Rightarrow> nat \<Rightarrow> 'a list" where
  "zeros A n = replicate n (from_int A 0)"

subsection \<open>The derivative function\<close>

text \<open>
  \<open>f\<close> is called with the state and the time and returns a float; \<open>'w\<close> is whatever
  state the callable can see and change. A pure \<open>f\<close> is \<open>pure g\<close>: it returns \<open>g x t\<close>
  and leaves the world as it was. \<open>counted g\<close> is \<open>g\<close> with a call counter for a
  world. \<open>f\<close> is taken to return: a call of \<open>f\<close> that raises ends the stepper with that
  exception, which is not modelled.
\<close>

type_synonym ('a, 'w) callable = "'a \<Rightarrow> 'a \<Rightarrow> 'w \<Rightarrow> 'a \<times> 'w"

definition pure :: "('a \<Rightarrow> 'a \<Rightarrow> 'a) \<Rightarrow> ('a, 'w) callable" where
  "pure g = (\<lambda>x t w. (g x t, w))"

definition counted :: "('a \<Rightarrow> 'a \<Rightarrow> 'a) \<Rightarrow> ('a, nat) callable" where
  "counted g = (\<lambda>x t n. (g x t, Suc n))"

subsection \<open>The three steppers\<close>

text \<open>
  The right-hand side of the assignment in each loop body, as a function of \<open>x[i]\<close>,
  \<open>t[i]\<close> and the world. The calls of \<open>f\<close> are in the order of the source; Python's
  \<open>a + b + c\<close> is \<open>(a + b) + c\<close>, and the integer literals \<open>1\<close>, \<open>2\<close> and \<open>6\<close> become
  floats when they meet one.
\<close>

definition Euler_rule :: "'a arith \<Rightarrow> ('a, 'w) callable \<Rightarrow> 'a \<Rightarrow> ('a, 'w) callable" where
  "Euler_rule A f h xv tv w =
     (let (d, w) = f xv tv w
      in (fadd A xv (fmul A h d), w))"

definition RK2_rule :: "'a arith \<Rightarrow> ('a, 'w) callable \<Rightarrow> 'a \<Rightarrow> ('a, 'w) callable" where
  "RK2_rule A f h xv tv w =
     (let (d1, w) = f xv tv w;
          k1 = fmul A h d1;
          (d2, w) = f (fadd A xv (fdiv A k1 (from_int A 2)))
                      (fadd A tv (fdiv A h (from_int A 2))) w;
          k2 = fmul A h d2
      in (fadd A xv k2, w))"

definition RK4_rule :: "'a arith \<Rightarrow> ('a, 'w) callable \<Rightarrow> 'a \<Rightarrow> ('a, 'w) callable" where
  "RK4_rule A f h xv tv w =
     (let (d1, w) = f xv tv w;
          k1 = fmul A h d1;
          (d2, w) = f (fadd A xv (fdiv A k1 (from_int A 2)))
                      (fadd A tv (fdiv A h (from_int A 2))) w;
          k2 = fmul A h d2;
          (d3, w) = f (fadd A xv (fdiv A k2 (from_int A 2)))
                      (fadd A tv (fdiv A h (from_int A 2))) w;
          k3 = fmul A h d3;
          (d4, w) = f (fadd A xv k3) (fadd A tv h) w;
          k4 = fmul A h d4
      in (fadd A xv
            (fmul A (fdiv A (from_int A 1) (from_int A 6))
               (fadd A (fadd A (fadd A k1 (fmul A (from_int A 2) k2))
                          (fmul A (from_int A 2) k3)) k4)),
          w))"

text \<open>
  One pass of a loop body \<open>x[i+1] = rule(x[i], t[i])\<close> on the pair of the array \<open>x\<close>
  and the world. An index out of range raises \<open>IndexError\<close> in Python, and an
  exception ends the loop.
\<close>

definition assign_next ::
  "('a, 'w) callable \<Rightarrow> 'a list \<Rightarrow> nat \<Rightarrow> py_error + 'a list \<times> 'w \<Rightarrow> py_error + 'a list \<times> 'w"
where
  "assign_next rule t i st =
     (case st of
        Inl e \<Rightarrow> Inl e
      | Inr (x, w) \<Rightarrow>
          if i < length x \<and> i < length t \<and> Suc i < length x
          then (let (v, w) = rule (x ! i) (t ! i) w in Inr (x[Suc i := v], w))
          else Inl IndexError)"

text \<open>
  The division \<open>(tf-ti)/N\<close> comes before the grid is built. When \<open>N\<close> is \<open>0\<close> it raises
  \<open>ZeroDivisionError\<close> if \<open>tf - ti\<close> is a Python \<open>float\<close>; if it is a \<open>numpy.float64\<close> the
  quotient is an infinity or NaN and the function goes on, to an empty grid, an empty
  \<open>x\<close> and the \<open>IndexError\<close> of \<open>x[0] = xi\<close>. \<open>for i in range(n)\<close> is a \<open>fold\<close> over
  \<open>[0..<n]\<close>; \<open>range\<close> of a negative number is empty, as \<open>[0..<0 - 1]\<close> is.
  Resources are not modelled: an array of any length can be allocated, and \<open>from_int\<close>
  is total (Python raises \<open>OverflowError\<close> for an \<open>N\<close> of \<open>2 ^ 1024\<close> or more, far beyond
  any array; in \<open>binary64\<close> such an \<open>N\<close> converts to an infinity).
\<close>

definition Euler ::
  "'a arith \<Rightarrow> ('a, 'w) callable \<Rightarrow> int \<Rightarrow> 'a \<Rightarrow> 'a \<Rightarrow> 'a \<Rightarrow> 'w \<Rightarrow> py_error + 'a list \<times> 'w"
where
  "Euler A f N xi ti tf w =
     (if N = 0 \<and> div_zero_raises A then Inl ZeroDivisionError
      else
        let h = fdiv A (fsub A tf ti) (from_int A N)
        in case linspace A ti tf N of
             Inl e \<Rightarrow> Inl e
           | Inr t \<Rightarrow>
               let x = zeros A (length t)
               in if length x = 0 then Inl IndexError
                  else fold (assign_next (Euler_rule A f h) t) [0..<length t - 1]
                         (Inr (x[0 := xi], w)))"

definition RK2 ::
  "'a arith \<Rightarrow> ('a, 'w) callable \<Rightarrow> int \<Rightarrow> 'a \<Rightarrow> 'a \<Rightarrow> 'a \<Rightarrow> 'w \<Rightarrow> py_error + 'a list \<times> 'w"
where
  "RK2 A f N xi ti tf w =
     (if N = 0 \<and> div_zero_raises A then Inl ZeroDivisionError
      else
        let h = fdiv A (fsub A tf ti) (from_int A N)
        in case linspace A ti tf N of
             Inl e \<Rightarrow> Inl e
           | Inr t \<Rightarrow>
               let x = zeros A (length t)
               in if length x = 0 then Inl IndexError
                  else fold (assign_next (RK2_rule A f h) t) [0..<length t - 1]
                         (Inr (x[0 := xi], w)))"

definition RK4 ::
  "'a arith \<Rightarrow> ('a, 'w) callable \<Rightarrow> int \<Rightarrow> 'a \<Rightarrow> 'a \<Rightarrow> 'a \<Rightarrow> 'w \<Rightarrow> py_error + 'a list \<times> 'w"
where
  "RK4 A f N xi ti tf w =
     (if N = 0 \<and> div_zero_raises A then Inl ZeroDivisionError
      else
        let h = fdiv A (fsub A tf ti) (from_int A N)
        in case linspace A ti tf N of
             Inl e \<Rightarrow> Inl e
           | Inr t \<Rightarrow>
               let x = zeros A (length t)
               in if length x = 0 then Inl IndexError
                  else fold (assign_next (RK4_rule A f h) t) [0..<length t - 1]
                         (Inr (x[0 := xi], w)))"

text \<open>
  A sequence is strictly monotonic when it is strictly increasing or strictly
  decreasing under the arithmetic's own \<open><\<close>.
\<close>

definition strictly_monotonic :: "'a arith \<Rightarrow> 'a list \<Rightarrow> bool" where
  "strictly_monotonic A xs = (sorted_wrt (flt A) xs \<or> sorted_wrt (\<lambda>a b. flt A b a) xs)"

subsection \<open>Arrays as objects\<close>

text \<open>
  The lists above are the values of the arrays. In Python an array is an object:
  \<open>np.linspace\<close> and \<open>np.zeros\<close> each allocate a new one, \<open>x[i] = v\<close> updates one in
  place, and what a call returns is a reference to \<open>x\<close>. To speak of what a call
  leaves behind, the state of the interpreter is made explicit: the contents of every
  array allocated so far, by address, the number of addresses in use, and the world of
  the caller's \<open>f\<close>. The three functions are transcribed once more, statement by
  statement, on that state; \<open>Euler_call\<close>, \<open>RK2_call\<close> and \<open>RK4_call\<close> return the address
  of \<open>x\<close> and the state after the call.

  \<open>f\<close> is given the world and nothing else: \<open>t\<close> and \<open>x\<close> are local variables of the
  running call, to which \<open>f\<close> has no reference. So \<open>x[i]\<close> and \<open>t[i]\<close>, which the source
  reads again at every stage, are read once per pass of the loop. An exception
  discards the state, and arrays are never freed: \<open>t\<close> stays allocated after the return.
\<close>

record ('a, 'w) pystate =
  arrays :: "nat \<Rightarrow> 'a list"
  allocated :: nat
  world :: 'w

definition new_array :: "'a list \<Rightarrow> ('a, 'w) pystate \<Rightarrow> nat \<times> ('a, 'w) pystate" where
  "new_array v s =
     (allocated s, s\<lparr>arrays := (arrays s)(allocated s := v), allocated := Suc (allocated s)\<rparr>)"

definition len :: "nat \<Rightarrow> ('a, 'w) pystate \<Rightarrow> nat" where
  "len a s = length (arrays s a)"

definition get_item :: "nat \<Rightarrow> nat \<Rightarrow> ('a, 'w) pystate \<Rightarrow> py_error + 'a" where
  "get_item a i s = (if i < len a s then Inr (arrays s a ! i) else Inl IndexError)"

definition set_item :: "nat \<Rightarrow> nat \<Rightarrow> 'a \<Rightarrow> ('a, 'w) pystate \<Rightarrow> py_error + ('a, 'w) pystate" where
  "set_item a i v s =
     (if i < len a s then Inr (s\<lparr>arrays := (arrays s)(a := (arrays s a)[i := v])\<rparr>)
      else Inl IndexError)"

definition call :: "('a, 'w) callable \<Rightarrow> ('a, ('a, 'w) pystate) callable" where
  "call f xv tv s = (let (v, w) = f xv tv (world s) in (v, s\<lparr>world := w\<rparr>))"

definition assign_next_obj ::
  "('a, ('a, 'w) pystate) callable \<Rightarrow> nat \<Rightarrow> nat \<Rightarrow> nat \<Rightarrow>
   py_error + ('a, 'w) pystate \<Rightarrow> py_error + ('a, 'w) pystate"
where
  "assign_next_obj rule t x i st =
     (case st of
        Inl e \<Rightarrow> Inl e
      | Inr s \<Rightarrow>
          (case get_item x i s of
             Inl e \<Rightarrow> Inl e
           | Inr xv \<Rightarrow>
               (case get_item t i s of
                  Inl e \<Rightarrow> Inl e
                | Inr tv \<Rightarrow> (let (v, s) = rule xv tv s in set_item x (Suc i) v s))))"

definition Euler_call ::
  "'a arith \<Rightarrow> ('a, 'w) callable \<Rightarrow> int \<Rightarrow> 'a \<Rightarrow> 'a \<Rightarrow> 'a \<Rightarrow> ('a, 'w) pystate \<Rightarrow>
   py_error + nat \<times> ('a, 'w) pystate"
where
  "Euler_call A f N xi ti tf s =
     (if N = 0 \<and> div_zero_raises A then Inl ZeroDivisionError
      else
        let h = fdiv A (fsub A tf ti) (from_int A N)
        in case linspace A ti tf N of
             Inl e \<Rightarrow> Inl e
           | Inr grid \<Rightarrow>
               let (t, s) = new_array grid s;
                   (x, s) = new_array (zeros A (len t s)) s
               in case set_item x 0 xi s of
                    Inl e \<Rightarrow> Inl e
                  | Inr s \<Rightarrow>
                      (case fold (assign_next_obj (Euler_rule A (call f) h) t x)
                              [0..<len t s - 1] (Inr s) of
                         Inl e \<Rightarrow> Inl e
                       | Inr s \<Rightarrow> Inr (x, s)))"

definition RK2_call ::
  "'a arith \<Rightarrow> ('a, 'w) callable \<Rightarrow> int \<Rightarrow> 'a \<Rightarrow> 'a \<Rightarrow> 'a \<Rightarrow> ('a, 'w) pystate \<Rightarrow>
   py_error + nat \<times> ('a, 'w) pystate"
where
  "RK2_call A f N xi ti tf s =
     (if N = 0 \<and> div_zero_raises A then Inl ZeroDivisionError
      else
        let h = fdiv A (fsub A tf ti) (from_int A N)
        in case linspace A ti tf N of
             Inl e \<Rightarrow> Inl e
           | Inr grid \<Rightarrow>
               let (t, s) = new_array grid s;
                   (x, s) = new_array (zeros A (len t s)) s
               in case set_item x 0 xi s of
                    Inl e \<Rightarrow> Inl e
                  | Inr s \<Rightarrow>
                      (case fold (assign_next_obj (RK2_rule A (call f) h) t x)
                              [0..<len t s - 1] (Inr s) of
                         Inl e \<Rightarrow> Inl e
                       | Inr s \<Rightarrow> Inr (x, s)))"

definition RK4_call ::
  "'a arith \<Rightarrow> ('a, 'w) callable \<Rightarrow> int \<Rightarrow> 'a \<Rightarrow> 'a \<Rightarrow> 'a \<Rightarrow> ('a, 'w) pystate \<Rightarrow>
   py_error + nat \<times> ('a, 'w) pystate"
where
  "RK4_call A f N xi ti tf s =
     (if N = 0 \<and> div_zero_raises A then Inl ZeroDivisionError
      else
        let h = fdiv A (fsub A tf ti) (from_int A N)
        in case linspace A ti tf N of
             Inl e \<Rightarrow> Inl e
           | Inr grid \<Rightarrow>
               let (t, s) = new_array grid s;
                   (x, s) = new_array (zeros A (len t s)) s
               in case set_item x 0 xi s of
                    Inl e \<Rightarrow> Inl e
                  | Inr s \<Rightarrow>
                      (case fold (assign_next_obj (RK4_rule A (call f) h) t x)
                              [0..<len t s - 1] (Inr s) of
                         Inl e \<Rightarrow> Inl e
                       | Inr s \<Rightarrow> Inr (x, s)))"

section \<open>The loop\<close>

lemma assign_next_Inl: "assign_next rule t i (Inl e) = Inl e"
  by (simp add: assign_next_def)

lemma fold_assign_next_Inl: "fold (assign_next rule t) js (Inl e) = Inl e"
  by (induction js) (simp_all add: assign_next_Inl)

lemma fold_update_length:
  "length (fold (\<lambda>i x. x[Suc i := F x i]) js x) = length x"
  by (induction js arbitrary: x) simp_all

lemma fold_update_recurrence:
  assumes "k < length x"
  shows "(fold (\<lambda>i x. x[Suc i := r (x ! i) (t ! i)]) [0..<k] x) ! 0 = x ! 0
       \<and> (\<forall>i<k. (fold (\<lambda>i x. x[Suc i := r (x ! i) (t ! i)]) [0..<k] x) ! Suc i =
               r ((fold (\<lambda>i x. x[Suc i := r (x ! i) (t ! i)]) [0..<k] x) ! i) (t ! i))
       \<and> (\<forall>j>k. (fold (\<lambda>i x. x[Suc i := r (x ! i) (t ! i)]) [0..<k] x) ! j = x ! j)"
  using assms
proof (induction k)
  case 0
  then show ?case by simp
next
  case (Suc k)
  define X where "X = fold (\<lambda>i x. x[Suc i := r (x ! i) (t ! i)]) [0..<k] x"
  have len: "length X = length x"
    by (simp add: X_def fold_update_length)
  from Suc have ih0: "X ! 0 = x ! 0"
    and ih1: "\<And>i. i < k \<Longrightarrow> X ! Suc i = r (X ! i) (t ! i)"
    and ih2: "\<And>j. k < j \<Longrightarrow> X ! j = x ! j"
    by (simp_all add: X_def)
  have step: "fold (\<lambda>i x. x[Suc i := r (x ! i) (t ! i)]) [0..<Suc k] x =
              X[Suc k := r (X ! k) (t ! k)]"
    by (simp add: X_def)
  have "i < Suc k \<Longrightarrow> (X[Suc k := r (X ! k) (t ! k)]) ! Suc i =
          r ((X[Suc k := r (X ! k) (t ! k)]) ! i) (t ! i)" for i
    using Suc.prems len ih1 [of i] by (cases "i = k") simp_all
  then show ?case
    unfolding step using ih0 ih2 by simp
qed

lemma loop_general:
  assumes "k \<le> length t" "k < length x"
  shows "\<exists>x' w'. fold (assign_next rule t) [0..<k] (Inr (x, w)) = Inr (x', w')
           \<and> length x' = length x \<and> x' ! 0 = x ! 0"
  using assms
proof (induction k)
  case 0
  then show ?case by simp
next
  case (Suc k)
  then obtain x' w' where f: "fold (assign_next rule t) [0..<k] (Inr (x, w)) = Inr (x', w')"
    and l: "length x' = length x" and z: "x' ! 0 = x ! 0"
    by auto
  obtain v w'' where r: "rule (x' ! k) (t ! k) w' = (v, w'')"
    by (cases "rule (x' ! k) (t ! k) w'")
  have "fold (assign_next rule t) [0..<Suc k] (Inr (x, w)) = Inr (x'[Suc k := v], w'')"
    using Suc.prems f l r by (simp add: assign_next_def)
  then show ?case using l z by simp
qed

lemma loop_pure:
  assumes p: "\<And>xv tv w. rule xv tv w = (r xv tv, w)"
    and "k \<le> length t" "k < length x"
  shows "fold (assign_next rule t) [0..<k] (Inr (x, w)) =
         Inr (fold (\<lambda>i x. x[Suc i := r (x ! i) (t ! i)]) [0..<k] x, w)"
  using assms(2,3)
proof (induction k)
  case 0
  then show ?case by simp
next
  case (Suc k)
  then show ?case
    by (simp add: assign_next_def p fold_update_length)
qed

lemma loop_count:
  assumes c: "\<And>xv tv n. snd (rule xv tv n) = n + c"
    and "k \<le> length t" "k < length x"
  shows "\<exists>x'. fold (assign_next rule t) [0..<k] (Inr (x, n)) = Inr (x', n + c * k)
           \<and> length x' = length x"
  using assms(2,3)
proof (induction k)
  case 0
  then show ?case by simp
next
  case (Suc k)
  then obtain x' where f: "fold (assign_next rule t) [0..<k] (Inr (x, n)) = Inr (x', n + c * k)"
    and l: "length x' = length x"
    by auto
  obtain v m where r: "rule (x' ! k) (t ! k) (n + c * k) = (v, m)"
    by (cases "rule (x' ! k) (t ! k) (n + c * k)")
  with c [of "x' ! k" "t ! k" "n + c * k"] have m: "m = n + c * Suc k"
    by simp
  have "fold (assign_next rule t) [0..<Suc k] (Inr (x, n)) = Inr (x'[Suc k := v], m)"
    using Suc.prems f l r by (simp add: assign_next_def)
  then show ?case using l m by simp
qed

lemma linspace_Inr: "0 \<le> N \<Longrightarrow> \<exists>t. linspace A ti tf N = Inr t \<and> length t = nat N"
  by (simp add: linspace_def Let_def)

section \<open>Rounding to binary64\<close>

text \<open>
  \<open>ilog2\<close> is the binary exponent, so \<open>round64\<close> can be evaluated from the exponent
  and the rounded significand, each checked by a comparison of numerals.
\<close>

lemma pow2_powi: "pow2 e = 2 powi e"
proof (cases "0 \<le> e")
  case True
  then show ?thesis by (simp add: pow2_def power_int_def)
next
  case False
  then show ?thesis
    by (simp add: pow2_def power_int_def inverse_eq_divide power_one_over)
qed

lemma pow2_pos: "0 < pow2 e"
  by (simp add: pow2_powi)

lemma pow2_add: "pow2 (a + b) = pow2 a * pow2 b"
  by (simp add: pow2_powi power_int_add)

lemma pow2_diff: "pow2 (a - b) = pow2 a / pow2 b"
  by (simp add: pow2_powi power_int_diff)

lemma pow2_less_iff: "pow2 a < pow2 b \<longleftrightarrow> a < b"
proof
  assume "pow2 a < pow2 b"
  show "a < b"
  proof (rule ccontr)
    assume "\<not> a < b"
    then have "b \<le> a" by simp
    then have "(2::rat) powi b \<le> 2 powi a"
      by (intro power_int_increasing) simp_all
    with \<open>pow2 a < pow2 b\<close> show False by (simp add: pow2_powi)
  qed
next
  assume "a < b"
  then show "pow2 a < pow2 b"
    unfolding pow2_powi by (intro power_int_strict_increasing) simp_all
qed

lemma pow2_le_iff: "pow2 a \<le> pow2 b \<longleftrightarrow> a \<le> b"
  using pow2_less_iff [of b a] by (auto simp: not_less [symmetric])

lemma pow2_nat: "0 \<le> e \<Longrightarrow> pow2 e = 2 ^ nat e"
  by (simp add: pow2_def)

lemma bitlen_pow2_bounds:
  assumes "0 < p"
  shows "pow2 (bitlen p - 1) \<le> of_int p" and "of_int p < pow2 (bitlen p)"
proof -
  from bitlen_bounds [OF assms]
  have lo: "2 ^ nat (bitlen p - 1) \<le> p" and hi: "p < 2 ^ nat (bitlen p)"
    by simp_all
  have "1 \<le> bitlen p"
    using assms by (simp add: bitlen_alt_def)
  then have "pow2 (bitlen p - 1) = of_int (2 ^ nat (bitlen p - 1))"
    by (simp add: pow2_nat)
  also have "\<dots> \<le> of_int p"
    using lo by (simp only: of_int_le_iff)
  finally show "pow2 (bitlen p - 1) \<le> of_int p" .
  have "(of_int p :: rat) < of_int (2 ^ nat (bitlen p))"
    using hi by (simp only: of_int_less_iff)
  also have "\<dots> = pow2 (bitlen p)"
    using bitlen_nonneg [of p] by (simp add: pow2_nat)
  finally show "of_int p < pow2 (bitlen p)" .
qed

lemma ilog2_bounds:
  assumes "q \<noteq> 0"
  shows "pow2 (ilog2 q) \<le> \<bar>q\<bar>" and "\<bar>q\<bar> < pow2 (ilog2 q + 1)"
proof -
  obtain p d where pd: "quotient_of \<bar>q\<bar> = (p, d)"
    by (cases "quotient_of \<bar>q\<bar>")
  have d: "0 < d"
    using pd by (rule quotient_of_denom_pos)
  have q: "\<bar>q\<bar> = of_int p / of_int d"
    using pd by (rule quotient_of_div)
  have p: "0 < p"
  proof -
    have "0 < \<bar>q\<bar>" using assms by simp
    then have "0 < (of_int p :: rat) / of_int d" by (simp only: q)
    with d show ?thesis by (simp add: zero_less_divide_iff)
  qed
  define b where "b = bitlen p - bitlen d"
  note P = bitlen_pow2_bounds [OF p] and D = bitlen_pow2_bounds [OF d]
  have dpos: "(0::rat) < of_int d" using d by simp
  have "\<bar>q\<bar> < pow2 (bitlen p) / of_int d"
    unfolding q using P(2) dpos by (simp add: divide_strict_right_mono)
  also have "\<dots> \<le> pow2 (bitlen p) / pow2 (bitlen d - 1)"
    using D(1) pow2_pos [of "bitlen p"] pow2_pos [of "bitlen d - 1"]
    by (simp add: frac_le)
  also have "\<dots> = pow2 (b + 1)"
    by (simp add: b_def pow2_diff [symmetric] algebra_simps)
  finally have hi: "\<bar>q\<bar> < pow2 (b + 1)" .
  have "pow2 (b - 1) = pow2 (bitlen p - 1) / pow2 (bitlen d)"
    by (simp add: b_def pow2_diff [symmetric] algebra_simps)
  also have "\<dots> \<le> of_int p / pow2 (bitlen d)"
    using P(1) pow2_pos [of "bitlen d"] by (simp add: divide_right_mono)
  also have "\<dots> \<le> of_int p / of_int d"
    using D(2) p dpos by (simp add: frac_le)
  finally have lo: "pow2 (b - 1) \<le> \<bar>q\<bar>"
    by (simp only: q)
  have il: "ilog2 q = (if pow2 b \<le> \<bar>q\<bar> then b else b - 1)"
    by (simp add: ilog2_def pd b_def Let_def)
  show "pow2 (ilog2 q) \<le> \<bar>q\<bar>"
    using lo by (simp add: il)
  show "\<bar>q\<bar> < pow2 (ilog2 q + 1)"
    using hi by (simp add: il not_le)
qed

lemma ilog2_eq:
  assumes "pow2 e \<le> \<bar>q\<bar>" and "\<bar>q\<bar> < pow2 (e + 1)"
  shows "ilog2 q = e"
proof -
  have "q \<noteq> 0"
    using assms(1) pow2_pos [of e] by auto
  note B = ilog2_bounds [OF this]
  have "pow2 e < pow2 (ilog2 q + 1)"
    using assms(1) B(2) by (rule le_less_trans)
  moreover have "pow2 (ilog2 q) < pow2 (e + 1)"
    using B(1) assms(2) by (rule le_less_trans)
  ultimately show ?thesis
    by (simp add: pow2_less_iff)
qed

lemma round64_eval:
  assumes "pow2 e \<le> \<bar>q\<bar>" and "\<bar>q\<bar> < pow2 (e + 1)"
    and "round_half_even (q / pow2 (max e (- 1022) - 52)) = n"
    and "\<bar>of_int n * pow2 (max e (- 1022) - 52)\<bar> < pow2 1024"
    and "n \<noteq> 0"
  shows "round64 q = Finite (of_int n * pow2 (max e (- 1022) - 52))"
proof -
  have "q \<noteq> 0"
    using assms(1) pow2_pos [of e] by auto
  then show ?thesis
    using assms(3,4,5) pow2_pos [of "max e (- 1022) - 52"]
    by (simp add: round64_def ulp_of_def ilog2_eq [OF assms(1,2)] Let_def)
qed

lemma round_half_even_nearest:
  assumes "of_int n - 1 / 2 < r" and "r < of_int n + 1 / 2"
  shows "round_half_even r = n"
proof -
  have "\<lfloor>r\<rfloor> = n \<or> \<lfloor>r\<rfloor> = n - 1"
    using assms by (auto simp: floor_eq_iff)
  then show ?thesis
  proof
    assume f: "\<lfloor>r\<rfloor> = n"
    then show ?thesis using assms by (simp add: round_half_even_def Let_def)
  next
    assume f: "\<lfloor>r\<rfloor> = n - 1"
    then show ?thesis using assms by (simp add: round_half_even_def Let_def)
  qed
qed

lemma round_half_even_tie:
  assumes "r = of_int n + 1 / 2"
  shows "round_half_even r = (if even n then n else n + 1)"
proof -
  have "\<lfloor>r\<rfloor> = n"
    using assms by (simp add: floor_eq_iff)
  then show ?thesis using assms by (simp add: round_half_even_def Let_def)
qed

section \<open>The harness shared by the steppers\<close>

text \<open>The grid of a non-negative \<open>N\<close> exists and has \<open>N\<close> points.\<close>

lemma linspace_error: "N < 0 \<Longrightarrow> linspace A ti tf N = Inl ValueError"
  by (simp add: linspace_def)

lemma length_zeros: "length (zeros A n) = n"
  by (simp add: zeros_def)

lemma zeros_eq_Nil: "zeros A n = [] \<longleftrightarrow> n = 0"
  by (simp add: zeros_def)

text \<open>
  The three steppers are one harness around three rules. \<open>harness\<close> facts are proved
  once, for any function \<open>S\<close> that has the harness's defining equation.
\<close>

lemma harness_general:
  assumes S: "S = (if N = 0 \<and> div_zero_raises A then Inl ZeroDivisionError
      else case linspace A ti tf N of
             Inl e \<Rightarrow> Inl e
           | Inr t \<Rightarrow>
               let x = zeros A (length t)
               in if length x = 0 then Inl IndexError
                  else fold (assign_next rule t) [0..<length t - 1] (Inr (x[0 := xi], w)))"
    and N: "1 \<le> N"
  shows "\<exists>x w'. S = Inr (x, w') \<and> length x = nat N \<and> x ! 0 = xi"
proof -
  obtain t where t: "linspace A ti tf N = Inr t" and lt: "length t = nat N"
    using linspace_Inr [of N A ti tf] N by auto
  have pos: "0 < nat N" using N by simp
  have S': "S = fold (assign_next rule t) [0..<nat N - 1] (Inr ((zeros A (nat N))[0 := xi], w))"
    using N pos by (simp add: S t lt length_zeros zeros_eq_Nil Let_def)
  obtain x w' where "fold (assign_next rule t) [0..<nat N - 1] (Inr ((zeros A (nat N))[0 := xi], w)) = Inr (x, w')"
    and "length x = length ((zeros A (nat N))[0 := xi])" and "x ! 0 = ((zeros A (nat N))[0 := xi]) ! 0"
    using loop_general [of "nat N - 1" t "(zeros A (nat N))[0 := xi]" rule w] pos lt
    by (auto simp: length_zeros)
  then show ?thesis
    using pos by (auto simp: S' length_zeros)
qed

lemma harness_pure:
  assumes S: "S = (if N = 0 \<and> div_zero_raises A then Inl ZeroDivisionError
      else case linspace A ti tf N of
             Inl e \<Rightarrow> Inl e
           | Inr t \<Rightarrow>
               let x = zeros A (length t)
               in if length x = 0 then Inl IndexError
                  else fold (assign_next rule t) [0..<length t - 1] (Inr (x[0 := xi], w)))"
    and p: "\<And>xv tv w. rule xv tv w = (r xv tv, w)"
    and N: "1 \<le> N"
    and t: "linspace A ti tf N = Inr t"
  shows "S = Inr (fold (\<lambda>i x. x[Suc i := r (x ! i) (t ! i)]) [0..<nat N - 1]
                    ((zeros A (nat N))[0 := xi]), w)"
proof -
  have lt: "length t = nat N"
    using linspace_Inr [of N A ti tf] N t by auto
  have pos: "0 < nat N" using N by simp
  have S': "S = fold (assign_next rule t) [0..<nat N - 1] (Inr ((zeros A (nat N))[0 := xi], w))"
    using N pos by (simp add: S t lt length_zeros zeros_eq_Nil Let_def)
  show ?thesis
    unfolding S' using pos lt by (intro loop_pure [OF p]) (simp_all add: length_zeros)
qed

lemma trajectory:
  assumes "0 < n"
  shows "length (fold (\<lambda>i x. x[Suc i := r (x ! i) (t ! i)]) [0..<n - 1]
                  ((zeros A n)[0 := xi])) = n"
    and "fold (\<lambda>i x. x[Suc i := r (x ! i) (t ! i)]) [0..<n - 1]
           ((zeros A n)[0 := xi]) ! 0 = xi"
    and "\<And>i. Suc i < n \<Longrightarrow>
           fold (\<lambda>i x. x[Suc i := r (x ! i) (t ! i)]) [0..<n - 1]
             ((zeros A n)[0 := xi]) ! Suc i =
           r (fold (\<lambda>i x. x[Suc i := r (x ! i) (t ! i)]) [0..<n - 1]
                ((zeros A n)[0 := xi]) ! i) (t ! i)"
proof -
  have l: "n - 1 < length ((zeros A n)[0 := xi])"
    using assms(1) by (simp add: length_zeros)
  note R = fold_update_recurrence [OF l, of r t]
  show "length (fold (\<lambda>i x. x[Suc i := r (x ! i) (t ! i)]) [0..<n - 1]
                  ((zeros A n)[0 := xi])) = n"
    by (simp add: fold_update_length length_zeros)
  show "fold (\<lambda>i x. x[Suc i := r (x ! i) (t ! i)]) [0..<n - 1]
           ((zeros A n)[0 := xi]) ! 0 = xi"
    using R assms(1) by (simp add: length_zeros)
  show "fold (\<lambda>i x. x[Suc i := r (x ! i) (t ! i)]) [0..<n - 1]
             ((zeros A n)[0 := xi]) ! Suc i =
           r (fold (\<lambda>i x. x[Suc i := r (x ! i) (t ! i)]) [0..<n - 1]
                ((zeros A n)[0 := xi]) ! i) (t ! i)" if "Suc i < n" for i
    using R that by simp
qed

lemma harness_count:
  assumes S: "S = (if N = 0 \<and> div_zero_raises A then Inl ZeroDivisionError
      else case linspace A ti tf N of
             Inl e \<Rightarrow> Inl e
           | Inr t \<Rightarrow>
               let x = zeros A (length t)
               in if length x = 0 then Inl IndexError
                  else fold (assign_next rule t) [0..<length t - 1] (Inr (x[0 := xi], n)))"
    and c: "\<And>xv tv n. snd (rule xv tv n) = n + c"
    and N: "1 \<le> N"
  shows "\<exists>x. S = Inr (x, n + c * nat (N - 1))"
proof -
  obtain t where t: "linspace A ti tf N = Inr t" and lt: "length t = nat N"
    using linspace_Inr [of N A ti tf] N by auto
  have pos: "0 < nat N" using N by simp
  have S': "S = fold (assign_next rule t) [0..<nat N - 1] (Inr ((zeros A (nat N))[0 := xi], n))"
    using N pos by (simp add: S t lt length_zeros zeros_eq_Nil Let_def)
  have k: "nat N - 1 = nat (N - 1)" using N by simp
  have "\<exists>x'. fold (assign_next rule t) [0..<nat N - 1] (Inr ((zeros A (nat N))[0 := xi], n)) =
          Inr (x', n + c * (nat N - 1)) \<and> length x' = length ((zeros A (nat N))[0 := xi])"
    using pos lt by (intro loop_count [OF c]) (simp_all add: length_zeros)
  then show ?thesis
    unfolding S' k by blast
qed

lemma harness_error:
  assumes S: "S = (if N = 0 \<and> div_zero_raises A then Inl ZeroDivisionError
      else case linspace A ti tf N of
             Inl e \<Rightarrow> Inl e
           | Inr t \<Rightarrow>
               let x = zeros A (length t)
               in if length x = 0 then Inl IndexError
                  else fold (assign_next rule t) [0..<length t - 1] (Inr (x[0 := xi], w)))"
    and N: "N \<le> 0"
  shows "S = Inl (if N < 0 then ValueError
                  else if div_zero_raises A then ZeroDivisionError else IndexError)"
  using N by (simp add: S linspace_error linspace_def zeros_def)

lemma Euler_rule_pure:
  "Euler_rule A (pure g) h xv tv w = (fadd A xv (fmul A h (g xv tv)), w)"
  by (simp add: Euler_rule_def pure_def)

lemma RK2_rule_pure:
  "RK2_rule A (pure g) h xv tv w =
     (let k1 = fmul A h (g xv tv);
          k2 = fmul A h (g (fadd A xv (fdiv A k1 (from_int A 2)))
                           (fadd A tv (fdiv A h (from_int A 2))))
      in fadd A xv k2, w)"
  by (simp add: RK2_rule_def pure_def Let_def)

lemma RK4_rule_pure:
  "RK4_rule A (pure g) h xv tv w =
     (let k1 = fmul A h (g xv tv);
          k2 = fmul A h (g (fadd A xv (fdiv A k1 (from_int A 2)))
                           (fadd A tv (fdiv A h (from_int A 2))));
          k3 = fmul A h (g (fadd A xv (fdiv A k2 (from_int A 2)))
                           (fadd A tv (fdiv A h (from_int A 2))));
          k4 = fmul A h (g (fadd A xv k3) (fadd A tv h))
      in fadd A xv
           (fmul A (fdiv A (from_int A 1) (from_int A 6))
              (fadd A (fadd A (fadd A k1 (fmul A (from_int A 2) k2))
                         (fmul A (from_int A 2) k3)) k4)), w)"
  by (simp add: RK4_rule_def pure_def Let_def)

lemma Euler_rule_counted: "snd (Euler_rule A (counted g) h xv tv n) = n + 1"
  by (simp add: Euler_rule_def counted_def)

lemma RK2_rule_counted: "snd (RK2_rule A (counted g) h xv tv n) = n + 2"
  by (simp add: RK2_rule_def counted_def Let_def)

lemma RK4_rule_counted: "snd (RK4_rule A (counted g) h xv tv n) = n + 4"
  by (simp add: RK4_rule_def counted_def Let_def)

text \<open>With a pure \<open>f\<close> each stepper returns the array that its rule fills in, and the
  world as it found it.\<close>

lemma Euler_pure_run:
  assumes "1 \<le> N" and "linspace A ti tf N = Inr t"
    and "\<And>xv tv (w::'w). Euler_rule A (pure f) (fdiv A (fsub A tf ti) (from_int A N)) xv tv w = (r xv tv, w)"
  shows "Euler A (pure f) N xi ti tf (w::'w) =
         Inr (fold (\<lambda>i x. x[Suc i := r (x ! i) (t ! i)]) [0..<nat N - 1]
                ((zeros A (nat N))[0 := xi]), w)"
proof (rule harness_pure
    [where rule = "Euler_rule A (pure f) (fdiv A (fsub A tf ti) (from_int A N))",
      OF _ _ assms(1) assms(2)])
  show "Euler_rule A (pure f) (fdiv A (fsub A tf ti) (from_int A N)) xv tv w = (r xv tv, w)"
    for xv tv and w :: 'w
    by (rule assms(3))
  show "Euler A (pure f) N xi ti tf w =
    (if N = 0 \<and> div_zero_raises A then Inl ZeroDivisionError
     else case linspace A ti tf N of
            Inl e \<Rightarrow> Inl e
          | Inr t \<Rightarrow>
              let x = zeros A (length t)
              in if length x = 0 then Inl IndexError
                 else fold (assign_next
                        (Euler_rule A (pure f) (fdiv A (fsub A tf ti) (from_int A N))) t)
                        [0..<length t - 1] (Inr (x[0 := xi], w)))"
    unfolding Euler_def Let_def ..
qed

lemma RK2_pure_run:
  assumes "1 \<le> N" and "linspace A ti tf N = Inr t"
    and "\<And>xv tv (w::'w). RK2_rule A (pure f) (fdiv A (fsub A tf ti) (from_int A N)) xv tv w = (r xv tv, w)"
  shows "RK2 A (pure f) N xi ti tf (w::'w) =
         Inr (fold (\<lambda>i x. x[Suc i := r (x ! i) (t ! i)]) [0..<nat N - 1]
                ((zeros A (nat N))[0 := xi]), w)"
proof (rule harness_pure
    [where rule = "RK2_rule A (pure f) (fdiv A (fsub A tf ti) (from_int A N))",
      OF _ _ assms(1) assms(2)])
  show "RK2_rule A (pure f) (fdiv A (fsub A tf ti) (from_int A N)) xv tv w = (r xv tv, w)"
    for xv tv and w :: 'w
    by (rule assms(3))
  show "RK2 A (pure f) N xi ti tf w =
    (if N = 0 \<and> div_zero_raises A then Inl ZeroDivisionError
     else case linspace A ti tf N of
            Inl e \<Rightarrow> Inl e
          | Inr t \<Rightarrow>
              let x = zeros A (length t)
              in if length x = 0 then Inl IndexError
                 else fold (assign_next
                        (RK2_rule A (pure f) (fdiv A (fsub A tf ti) (from_int A N))) t)
                        [0..<length t - 1] (Inr (x[0 := xi], w)))"
    unfolding RK2_def Let_def ..
qed

lemma RK4_pure_run:
  assumes "1 \<le> N" and "linspace A ti tf N = Inr t"
    and "\<And>xv tv (w::'w). RK4_rule A (pure f) (fdiv A (fsub A tf ti) (from_int A N)) xv tv w = (r xv tv, w)"
  shows "RK4 A (pure f) N xi ti tf (w::'w) =
         Inr (fold (\<lambda>i x. x[Suc i := r (x ! i) (t ! i)]) [0..<nat N - 1]
                ((zeros A (nat N))[0 := xi]), w)"
proof (rule harness_pure
    [where rule = "RK4_rule A (pure f) (fdiv A (fsub A tf ti) (from_int A N))",
      OF _ _ assms(1) assms(2)])
  show "RK4_rule A (pure f) (fdiv A (fsub A tf ti) (from_int A N)) xv tv w = (r xv tv, w)"
    for xv tv and w :: 'w
    by (rule assms(3))
  show "RK4 A (pure f) N xi ti tf w =
    (if N = 0 \<and> div_zero_raises A then Inl ZeroDivisionError
     else case linspace A ti tf N of
            Inl e \<Rightarrow> Inl e
          | Inr t \<Rightarrow>
              let x = zeros A (length t)
              in if length x = 0 then Inl IndexError
                 else fold (assign_next
                        (RK4_rule A (pure f) (fdiv A (fsub A tf ti) (from_int A N))) t)
                        [0..<length t - 1] (Inr (x[0 := xi], w)))"
    unfolding RK4_def Let_def ..
qed

text \<open>The defining equation of each stepper, in the shape the harness lemmas take.\<close>

lemma Euler_harness:
  "Euler A f N xi ti tf w =
    (if N = 0 \<and> div_zero_raises A then Inl ZeroDivisionError
     else case linspace A ti tf N of
            Inl e \<Rightarrow> Inl e
          | Inr t \<Rightarrow>
              let x = zeros A (length t)
              in if length x = 0 then Inl IndexError
                 else fold (assign_next (Euler_rule A f (fdiv A (fsub A tf ti) (from_int A N))) t)
                        [0..<length t - 1] (Inr (x[0 := xi], w)))"
  unfolding Euler_def Let_def ..

lemma RK2_harness:
  "RK2 A f N xi ti tf w =
    (if N = 0 \<and> div_zero_raises A then Inl ZeroDivisionError
     else case linspace A ti tf N of
            Inl e \<Rightarrow> Inl e
          | Inr t \<Rightarrow>
              let x = zeros A (length t)
              in if length x = 0 then Inl IndexError
                 else fold (assign_next (RK2_rule A f (fdiv A (fsub A tf ti) (from_int A N))) t)
                        [0..<length t - 1] (Inr (x[0 := xi], w)))"
  unfolding RK2_def Let_def ..

lemma RK4_harness:
  "RK4 A f N xi ti tf w =
    (if N = 0 \<and> div_zero_raises A then Inl ZeroDivisionError
     else case linspace A ti tf N of
            Inl e \<Rightarrow> Inl e
          | Inr t \<Rightarrow>
              let x = zeros A (length t)
              in if length x = 0 then Inl IndexError
                 else fold (assign_next (RK4_rule A f (fdiv A (fsub A tf ti) (from_int A N))) t)
                        [0..<length t - 1] (Inr (x[0 := xi], w)))"
  unfolding RK4_def Let_def ..

lemma linspace_one: "linspace A ti tf 1 = Inr [fadd A (fmul A (from_int A 0) (fsub A tf ti)) ti]"
  by (simp add: linspace_def Let_def)

lemma single_step_free:
  "Euler A f 1 xi ti tf w = Inr ([xi], w)"
  "RK2 A f 1 xi ti tf w = Inr ([xi], w)"
  "RK4 A f 1 xi ti tf w = Inr ([xi], w)"
  by (simp_all add: Euler_def RK2_def RK4_def linspace_one zeros_def Let_def)

section \<open>The steppers on the store\<close>

text \<open>A rule given \<open>call f\<close> is the rule given \<open>f\<close>, run on the world inside the state.\<close>

lemma Euler_rule_call:
  "Euler_rule A (call f) h xv tv s =
     (case Euler_rule A f h xv tv (world s) of (v, w) \<Rightarrow> (v, s\<lparr>world := w\<rparr>))"
  by (simp add: Euler_rule_def call_def split_def Let_def)

lemma RK2_rule_call:
  "RK2_rule A (call f) h xv tv s =
     (case RK2_rule A f h xv tv (world s) of (v, w) \<Rightarrow> (v, s\<lparr>world := w\<rparr>))"
  by (simp add: RK2_rule_def call_def split_def Let_def)

lemma RK4_rule_call:
  "RK4_rule A (call f) h xv tv s =
     (case RK4_rule A f h xv tv (world s) of (v, w) \<Rightarrow> (v, s\<lparr>world := w\<rparr>))"
  by (simp add: RK4_rule_def call_def split_def Let_def)

lemma assign_next_obj_Inl: "assign_next_obj rule t x i (Inl e) = Inl e"
  by (simp add: assign_next_obj_def)

lemma fold_assign_next_obj_Inl: "fold (assign_next_obj rule t x) js (Inl e) = Inl e"
  by (induction js) (simp_all add: assign_next_obj_Inl)

lemma assign_next_obj_refines:
  assumes lift: "\<And>xv tv s. rule' xv tv s =
             (case rule xv tv (world s) of (v, w) \<Rightarrow> (v, s\<lparr>world := w\<rparr>))"
    and tx: "t \<noteq> x"
  shows "assign_next_obj rule' t x i (Inr s) =
         (case assign_next rule (arrays s t) i (Inr (arrays s x, world s)) of
            Inl e \<Rightarrow> Inl e
          | Inr (xs, w) \<Rightarrow> Inr (s\<lparr>arrays := (arrays s)(x := xs), world := w\<rparr>))"
  using tx
  by (simp add: assign_next_obj_def assign_next_def get_item_def set_item_def len_def lift
      split_def Let_def)

lemma loop_refines:
  assumes lift: "\<And>xv tv s. rule' xv tv s =
             (case rule xv tv (world s) of (v, w) \<Rightarrow> (v, s\<lparr>world := w\<rparr>))"
    and tx: "t \<noteq> x"
  shows "fold (assign_next_obj rule' t x) js (Inr s) =
         (case fold (assign_next rule (arrays s t)) js (Inr (arrays s x, world s)) of
            Inl e \<Rightarrow> Inl e
          | Inr (xs, w) \<Rightarrow> Inr (s\<lparr>arrays := (arrays s)(x := xs), world := w\<rparr>))"
proof (induction js arbitrary: s)
  case Nil
  show ?case by simp
next
  case (Cons j js)
  have step: "assign_next_obj rule' t x j (Inr s) =
         (case assign_next rule (arrays s t) j (Inr (arrays s x, world s)) of
            Inl e \<Rightarrow> Inl e
          | Inr (xs, w) \<Rightarrow> Inr (s\<lparr>arrays := (arrays s)(x := xs), world := w\<rparr>))"
    using lift tx by (rule assign_next_obj_refines)
  show ?case
  proof (cases "assign_next rule (arrays s t) j (Inr (arrays s x, world s))")
    case (Inl e)
    then show ?thesis
      by (simp add: step fold_assign_next_obj_Inl fold_assign_next_Inl)
  next
    case (Inr p)
    obtain xs w where p: "p = (xs, w)" by (cases p)
    define s1 where "s1 = s\<lparr>arrays := (arrays s)(x := xs), world := w\<rparr>"
    have s1: "arrays s1 t = arrays s t" "arrays s1 x = xs" "world s1 = w"
      using tx by (simp_all add: s1_def)
    have upd: "s1\<lparr>arrays := (arrays s1)(x := ys), world := v\<rparr> =
               s\<lparr>arrays := (arrays s)(x := ys), world := v\<rparr>" for ys v
      by (simp add: s1_def)
    have "fold (assign_next_obj rule' t x) (j # js) (Inr s) =
          fold (assign_next_obj rule' t x) js (Inr s1)"
      by (simp add: step Inr p s1_def)
    also have "\<dots> = (case fold (assign_next rule (arrays s t)) js (Inr (xs, w)) of
            Inl e \<Rightarrow> Inl e
          | Inr (ys, v) \<Rightarrow> Inr (s1\<lparr>arrays := (arrays s1)(x := ys), world := v\<rparr>))"
      by (simp only: Cons.IH [of s1] s1)
    finally show ?thesis
      by (simp add: Inr p upd split: sum.splits prod.splits) (simp add: fun_upd_def)
  qed
qed


lemma harness_obj:
  assumes S': "S' = (if N = 0 \<and> div_zero_raises A then Inl ZeroDivisionError
      else case linspace A ti tf N of
             Inl e \<Rightarrow> Inl e
           | Inr grid \<Rightarrow>
               let (t, s) = new_array grid s;
                   (x, s) = new_array (zeros A (len t s)) s
               in case set_item x 0 xi s of
                    Inl e \<Rightarrow> Inl e
                  | Inr s \<Rightarrow>
                      (case fold (assign_next_obj rule' t x) [0..<len t s - 1] (Inr s) of
                         Inl e \<Rightarrow> Inl e
                       | Inr s \<Rightarrow> Inr (x, s)))"
    and S: "S = (if N = 0 \<and> div_zero_raises A then Inl ZeroDivisionError
      else case linspace A ti tf N of
             Inl e \<Rightarrow> Inl e
           | Inr t \<Rightarrow>
               let x = zeros A (length t)
               in if length x = 0 then Inl IndexError
                  else fold (assign_next rule t) [0..<length t - 1] (Inr (x[0 := xi], world s)))"
    and lift: "\<And>xv tv s. rule' xv tv s =
             (case rule xv tv (world s) of (v, w) \<Rightarrow> (v, s\<lparr>world := w\<rparr>))"
  shows "S' = (case linspace A ti tf N of
                 Inl e \<Rightarrow> Inl e
               | Inr grid \<Rightarrow>
                   (case S of
                      Inl e \<Rightarrow> Inl e
                    | Inr (xs, w) \<Rightarrow>
                        Inr (Suc (allocated s),
                             s\<lparr>arrays := (arrays s)(allocated s := grid, Suc (allocated s) := xs),
                               allocated := Suc (Suc (allocated s)), world := w\<rparr>)))"
proof (cases "N = 0 \<and> div_zero_raises A")
  case True
  then show ?thesis
    by (simp add: S S' linspace_def)
next
  case False
  show ?thesis
  proof (cases "linspace A ti tf N")
    case (Inl e)
    then show ?thesis
      using False by (auto simp: S S')
  next
    case (Inr grid)
    show ?thesis
    proof (cases "grid = []")
      case True
      then show ?thesis
        using False Inr
        by (simp add: S S' new_array_def len_def set_item_def zeros_def)
    next
      case nonempty: False
      define t where "t = allocated s"
      define x where "x = Suc (allocated s)"
      define s1 where "s1 = s\<lparr>arrays := (arrays s)(t := grid), allocated := Suc (allocated s)\<rparr>"
      define s2 where "s2 = s1\<lparr>arrays := (arrays s1)(x := zeros A (length grid)),
                              allocated := Suc (allocated s1)\<rparr>"
      define s3 where "s3 = s2\<lparr>arrays := (arrays s2)(x := (zeros A (length grid))[0 := xi])\<rparr>"
      have tx: "t \<noteq> x"
        by (simp add: t_def x_def)
      have nz: "(N = 0 \<and> div_zero_raises A) = False"
        using False by simp
      have n1: "new_array grid s = (t, s1)"
        by (simp add: new_array_def t_def s1_def)
      have l1: "len t s1 = length grid"
        by (simp add: len_def s1_def)
      have n2: "new_array (zeros A (length grid)) s1 = (x, s2)"
        by (simp add: new_array_def x_def s1_def s2_def)
      have n3: "set_item x 0 xi s2 = Inr s3"
        using nonempty by (simp add: set_item_def len_def s2_def s3_def length_zeros)
      have s3: "arrays s3 t = grid" "arrays s3 x = (zeros A (length grid))[0 := xi]"
        "world s3 = world s"
        using tx by (simp_all add: s3_def s2_def s1_def)
      have l3: "len t s3 = length grid"
        by (simp add: len_def s3)
      have upd: "s3\<lparr>arrays := (arrays s3)(x := ys), world := v\<rparr> =
                 s\<lparr>arrays := (arrays s)(t := grid, x := ys),
                   allocated := Suc (Suc (allocated s)), world := v\<rparr>" for ys v
        by (simp add: s3_def s2_def s1_def)
      have "S' = (case fold (assign_next_obj rule' t x) [0..<length grid - 1] (Inr s3) of
                    Inl e \<Rightarrow> Inl e
                  | Inr s \<Rightarrow> Inr (x, s))"
        by (simp add: S' nz Inr n1 l1 n2 n3 l3)
      also have "fold (assign_next_obj rule' t x) [0..<length grid - 1] (Inr s3) =
         (case fold (assign_next rule grid) [0..<length grid - 1]
                 (Inr ((zeros A (length grid))[0 := xi], world s)) of
            Inl e \<Rightarrow> Inl e
          | Inr (xs, w) \<Rightarrow> Inr (s3\<lparr>arrays := (arrays s3)(x := xs), world := w\<rparr>))"
        using loop_refines [OF lift tx, where js = "[0..<length grid - 1]" and s = s3]
        by (simp only: s3)
      also have "fold (assign_next rule grid) [0..<length grid - 1]
                 (Inr ((zeros A (length grid))[0 := xi], world s)) = S"
        using nonempty by (simp add: S nz Inr length_zeros zeros_eq_Nil)
      finally show ?thesis
        by (simp add: Inr upd split: sum.splits prod.splits) (simp add: t_def x_def)
    qed
  qed
qed

lemma Euler_call_harness:
  "Euler_call A f N xi ti tf s =
     (if N = 0 \<and> div_zero_raises A then Inl ZeroDivisionError
      else case linspace A ti tf N of
             Inl e \<Rightarrow> Inl e
           | Inr grid \<Rightarrow>
               let (t, s) = new_array grid s;
                   (x, s) = new_array (zeros A (len t s)) s
               in case set_item x 0 xi s of
                    Inl e \<Rightarrow> Inl e
                  | Inr s \<Rightarrow>
                      (case fold (assign_next_obj
                                    (Euler_rule A (call f) (fdiv A (fsub A tf ti) (from_int A N))) t x)
                              [0..<len t s - 1] (Inr s) of
                         Inl e \<Rightarrow> Inl e
                       | Inr s \<Rightarrow> Inr (x, s)))"
  unfolding Euler_call_def Let_def ..

lemma RK2_call_harness:
  "RK2_call A f N xi ti tf s =
     (if N = 0 \<and> div_zero_raises A then Inl ZeroDivisionError
      else case linspace A ti tf N of
             Inl e \<Rightarrow> Inl e
           | Inr grid \<Rightarrow>
               let (t, s) = new_array grid s;
                   (x, s) = new_array (zeros A (len t s)) s
               in case set_item x 0 xi s of
                    Inl e \<Rightarrow> Inl e
                  | Inr s \<Rightarrow>
                      (case fold (assign_next_obj
                                    (RK2_rule A (call f) (fdiv A (fsub A tf ti) (from_int A N))) t x)
                              [0..<len t s - 1] (Inr s) of
                         Inl e \<Rightarrow> Inl e
                       | Inr s \<Rightarrow> Inr (x, s)))"
  unfolding RK2_call_def Let_def ..

lemma RK4_call_harness:
  "RK4_call A f N xi ti tf s =
     (if N = 0 \<and> div_zero_raises A then Inl ZeroDivisionError
      else case linspace A ti tf N of
             Inl e \<Rightarrow> Inl e
           | Inr grid \<Rightarrow>
               let (t, s) = new_array grid s;
                   (x, s) = new_array (zeros A (len t s)) s
               in case set_item x 0 xi s of
                    Inl e \<Rightarrow> Inl e
                  | Inr s \<Rightarrow>
                      (case fold (assign_next_obj
                                    (RK4_rule A (call f) (fdiv A (fsub A tf ti) (from_int A N))) t x)
                              [0..<len t s - 1] (Inr s) of
                         Inl e \<Rightarrow> Inl e
                       | Inr s \<Rightarrow> Inr (x, s)))"
  unfolding RK4_call_def Let_def ..

text \<open>Each call on the store is the stepper on lists, its result put in a new array.\<close>

lemma Euler_call_refines:
  "Euler_call A f N xi ti tf s =
     (case linspace A ti tf N of
        Inl e \<Rightarrow> Inl e
      | Inr grid \<Rightarrow>
          (case Euler A f N xi ti tf (world s) of
             Inl e \<Rightarrow> Inl e
           | Inr (xs, w) \<Rightarrow>
               Inr (Suc (allocated s),
                    s\<lparr>arrays := (arrays s)(allocated s := grid, Suc (allocated s) := xs),
                      allocated := Suc (Suc (allocated s)), world := w\<rparr>)))"
  by (rule harness_obj [OF Euler_call_harness Euler_harness Euler_rule_call])

lemma RK2_call_refines:
  "RK2_call A f N xi ti tf s =
     (case linspace A ti tf N of
        Inl e \<Rightarrow> Inl e
      | Inr grid \<Rightarrow>
          (case RK2 A f N xi ti tf (world s) of
             Inl e \<Rightarrow> Inl e
           | Inr (xs, w) \<Rightarrow>
               Inr (Suc (allocated s),
                    s\<lparr>arrays := (arrays s)(allocated s := grid, Suc (allocated s) := xs),
                      allocated := Suc (Suc (allocated s)), world := w\<rparr>)))"
  by (rule harness_obj [OF RK2_call_harness RK2_harness RK2_rule_call])

lemma RK4_call_refines:
  "RK4_call A f N xi ti tf s =
     (case linspace A ti tf N of
        Inl e \<Rightarrow> Inl e
      | Inr grid \<Rightarrow>
          (case RK4 A f N xi ti tf (world s) of
             Inl e \<Rightarrow> Inl e
           | Inr (xs, w) \<Rightarrow>
               Inr (Suc (allocated s),
                    s\<lparr>arrays := (arrays s)(allocated s := grid, Suc (allocated s) := xs),
                      allocated := Suc (Suc (allocated s)), world := w\<rparr>)))"
  by (rule harness_obj [OF RK4_call_harness RK4_harness RK4_rule_call])


lemma pure_run:
  assumes S: "\<And>w. S w = Inr (fold (\<lambda>i x. x[Suc i := r (x ! i) (t ! i)]) [0..<nat N - 1]
                             ((zeros A (nat N))[0 := xi]), w)"
    and N: "1 \<le> N"
  shows "\<exists>xs. length xs = nat N \<and> xs ! 0 = xi \<and> (\<forall>w. S w = Inr (xs, w))"
proof -
  have pos: "0 < nat N" using N by simp
  show ?thesis
    using S trajectory(1,2) [OF pos, of r t A xi] by blast
qed

lemma Euler_pure_result:
  assumes "1 \<le> N"
  shows "\<exists>xs. length xs = nat N \<and> xs ! 0 = xi
            \<and> (\<forall>w::'w. Euler A (pure g) N xi ti tf w = Inr (xs, w))"
proof -
  obtain t where t: "linspace A ti tf N = Inr t"
    using linspace_Inr [of N A ti tf] assms by auto
  define h where "h = fdiv A (fsub A tf ti) (from_int A N)"
  define r where "r = (\<lambda>xv tv. fst (Euler_rule A (pure g) h xv tv ()))"
  have "Euler A (pure g) N xi ti tf w =
        Inr (fold (\<lambda>i x. x[Suc i := r (x ! i) (t ! i)]) [0..<nat N - 1]
               ((zeros A (nat N))[0 := xi]), w)" for w :: 'w
    using assms t by (intro Euler_pure_run) (simp_all add: r_def h_def Euler_rule_pure)
  then show ?thesis
    using assms by (rule pure_run)
qed

lemma RK2_pure_result:
  assumes "1 \<le> N"
  shows "\<exists>xs. length xs = nat N \<and> xs ! 0 = xi
            \<and> (\<forall>w::'w. RK2 A (pure g) N xi ti tf w = Inr (xs, w))"
proof -
  obtain t where t: "linspace A ti tf N = Inr t"
    using linspace_Inr [of N A ti tf] assms by auto
  define h where "h = fdiv A (fsub A tf ti) (from_int A N)"
  define r where "r = (\<lambda>xv tv. fst (RK2_rule A (pure g) h xv tv ()))"
  have "RK2 A (pure g) N xi ti tf w =
        Inr (fold (\<lambda>i x. x[Suc i := r (x ! i) (t ! i)]) [0..<nat N - 1]
               ((zeros A (nat N))[0 := xi]), w)" for w :: 'w
    using assms t by (intro RK2_pure_run) (simp_all add: r_def h_def RK2_rule_pure Let_def)
  then show ?thesis
    using assms by (rule pure_run)
qed

lemma RK4_pure_result:
  assumes "1 \<le> N"
  shows "\<exists>xs. length xs = nat N \<and> xs ! 0 = xi
            \<and> (\<forall>w::'w. RK4 A (pure g) N xi ti tf w = Inr (xs, w))"
proof -
  obtain t where t: "linspace A ti tf N = Inr t"
    using linspace_Inr [of N A ti tf] assms by auto
  define h where "h = fdiv A (fsub A tf ti) (from_int A N)"
  define r where "r = (\<lambda>xv tv. fst (RK4_rule A (pure g) h xv tv ()))"
  have "RK4 A (pure g) N xi ti tf w =
        Inr (fold (\<lambda>i x. x[Suc i := r (x ! i) (t ! i)]) [0..<nat N - 1]
               ((zeros A (nat N))[0 := xi]), w)" for w :: 'w
    using assms t by (intro RK4_pure_run) (simp_all add: r_def h_def RK4_rule_pure Let_def)
  then show ?thesis
    using assms by (rule pure_run)
qed

lemma fresh_result:
  assumes refines: "S' = (case linspace A ti tf N of
        Inl e \<Rightarrow> Inl e
      | Inr grid \<Rightarrow>
          (case S of
             Inl e \<Rightarrow> Inl e
           | Inr (xs, w) \<Rightarrow>
               Inr (Suc (allocated s),
                    s\<lparr>arrays := (arrays s)(allocated s := grid, Suc (allocated s) := xs),
                      allocated := Suc (Suc (allocated s)), world := w\<rparr>)))"
    and run: "S = Inr (xs, world s)"
    and N: "1 \<le> N"
  shows "\<exists>x s'. S' = Inr (x, s') \<and> arrays s' x = xs \<and> allocated s \<le> x \<and> x < allocated s'
           \<and> (\<forall>a<allocated s. arrays s' a = arrays s a) \<and> world s' = world s"
proof -
  obtain grid where "linspace A ti tf N = Inr grid"
    using linspace_Inr [of N A ti tf] N by auto
  then show ?thesis
    by (simp add: refines run)
qed

text \<open>\<open>Euler(f, 3, 0.0, 0.0, 3.0)\<close> with \<open>f(x, t) = x + t\<close>, run on the empty store without
  rounding: \<open>t\<close> is allocated at address 0 and the result \<open>x\<close> at address 1.\<close>

lemma Euler_call_example:
  "Euler_call exact (pure (\<lambda>x t. x + t)) 3 0 0 (3::rat)
     \<lparr>arrays = (\<lambda>a. []), allocated = 0, world = ()\<rparr> =
   Inr (1, \<lparr>arrays = (\<lambda>a. [])(0 := [0, 3 / 2, 3], 1 := [0, 0, 3 / 2]), allocated = 2, world = ()\<rparr>)"
  by (simp add: Euler_call_def linspace_def zeros_def new_array_def len_def set_item_def
      get_item_def assign_next_obj_def Euler_rule_def call_def pure_def exact_def Let_def upt_rec)

section \<open>Evaluating binary64\<close>

text \<open>A value \<open>m * 2 ^ k\<close> with \<open>\<bar>m\<bar> < 2 ^ 53\<close> in the range of the format is a float:
  rounding returns it unchanged.\<close>

lemma zero64_simps [simp]: "zero64 False = Finite 0" "zero64 True = NegZero"
  by (simp_all add: zero64_def)

lemma round_half_even_of_int: "round_half_even (of_int n) = n"
  by (simp add: round_half_even_def)

lemma round64_exact:
  assumes m: "\<bar>m\<bar> < 2 ^ 53" and k: "- 1074 \<le> k"
    and fin: "\<bar>of_int m * pow2 k\<bar> < pow2 1024"
  shows "round64 (of_int m * pow2 k) = Finite (of_int m * pow2 k)"
proof (cases "m = 0")
  case True
  then show ?thesis by (simp add: round64_def)
next
  case False
  define q where "q = of_int m * pow2 k"
  have q0: "q \<noteq> 0"
    using False pow2_pos [of k] by (simp add: q_def)
  define j where "j = max (ilog2 q) (- 1022) - 52"
  have "pow2 (ilog2 q) \<le> \<bar>q\<bar>"
    using ilog2_bounds(1) [OF q0] .
  also have "\<bar>q\<bar> = of_int \<bar>m\<bar> * pow2 k"
    using pow2_pos [of k] by (simp add: q_def abs_mult)
  also have "\<dots> < of_int (2 ^ 53) * pow2 k"
    using m pow2_pos [of k] by (intro mult_strict_right_mono) (simp_all only: of_int_less_iff)
  also have "of_int (2 ^ 53) * pow2 k = pow2 (53 + k)"
  proof -
    have "(of_int (2 ^ 53) :: rat) = pow2 53"
      by (simp add: pow2_def)
    then show ?thesis
      by (simp only: pow2_add)
  qed
  finally have "ilog2 q < 53 + k"
    by (simp add: pow2_less_iff)
  with k have jk: "j \<le> k"
    by (simp add: j_def)
  have "q / pow2 j = of_int m * pow2 (k - j)"
    by (simp add: q_def pow2_diff)
  also have "pow2 (k - j) = of_int (2 ^ nat (k - j))"
    using jk by (simp add: pow2_nat)
  finally have "q / pow2 j = of_int (m * 2 ^ nat (k - j))"
    by simp
  then have "round_half_even (q / pow2 j) = m * 2 ^ nat (k - j)"
    by (simp only: round_half_even_of_int)
  then have "of_int (round_half_even (q / pow2 j)) * pow2 j = of_int m * (pow2 (k - j) * pow2 j)"
    using jk by (simp add: pow2_nat)
  also have "pow2 (k - j) * pow2 j = pow2 k"
    by (simp add: pow2_add [symmetric])
  finally have r: "of_int (round_half_even (q / pow2 j)) * pow2 j = q"
    by (simp add: q_def)
  show ?thesis
    using q0 fin r
    by (simp add: round64_def ulp_of_def Let_def j_def [symmetric] q_def [symmetric] not_le)
qed

lemma round64_int: "\<bar>m\<bar> < 2 ^ 53 \<Longrightarrow> round64 (of_int m) = Finite (of_int m)"
  using round64_exact [of m 0] by (simp add: pow2_def)

lemma round64_numeral [simp]:
  "\<bar>numeral m :: int\<bar> < 2 ^ 53 \<Longrightarrow> round64 (numeral m) = Finite (numeral m)"
  using round64_int [of "numeral m"] by simp

lemma round64_0 [simp]: "round64 0 = Finite 0"
  by (simp add: round64_def)

lemma round64_1 [simp]: "round64 1 = Finite 1"
  using round64_int [of 1] by simp

lemma round64_overflow:
  assumes "pow2 e \<le> \<bar>q\<bar>" and "\<bar>q\<bar> < pow2 (e + 1)"
    and "round_half_even (q / pow2 (max e (- 1022) - 52)) = n"
    and "pow2 1024 \<le> \<bar>of_int n * pow2 (max e (- 1022) - 52)\<bar>"
  shows "round64 q = Infinity (q < 0)"
proof -
  have "q \<noteq> 0"
    using assms(1) pow2_pos [of e] by auto
  then show ?thesis
    using assms(3,4) by (simp add: round64_def ulp_of_def ilog2_eq [OF assms(1,2)] Let_def)
qed

lemma round64_two_pow_1024: "round64 (2 ^ 1024) = Infinity False"
  using round64_overflow [of 1024 "2 ^ 1024" "2 ^ 52"]
    round_half_even_of_int [of "2 ^ 52"]
  by (simp add: pow2_def)

text \<open>The roundings that the concrete calls below go through, each checked against
  \<open>round64_eval\<close> by comparing numerals. \<open>3602879701896397 / 36028797018963968\<close> is the
  float \<open>0.1\<close>.\<close>

lemma round64_ulp_of_one: "round64 (1 / 4503599627370496) = Finite (1 / 4503599627370496)"
  using round64_exact [of 1 "- 52"] by (simp add: pow2_def)

lemma round64_half_ulp_of_one: "round64 (1 / 9007199254740992) = Finite (1 / 9007199254740992)"
  using round64_exact [of 1 "- 53"] by (simp add: pow2_def)

lemma round64_one_plus_half_ulp: "round64 (9007199254740993 / 9007199254740992) = Finite 1"
  using round64_eval [of 0 "9007199254740993 / 9007199254740992" 4503599627370496]
    round_half_even_tie [of "9007199254740993 / 2" 4503599627370496]
  by (simp add: pow2_def)

lemma round64_tenth: "round64 (3602879701896397 / 36028797018963968) = Finite (3602879701896397 / 36028797018963968)"
  using round64_eval [of "- 4" "3602879701896397 / 36028797018963968" 7205759403792794]
    round_half_even_nearest [of 7205759403792794 "7205759403792794"]
  by (simp add: pow2_def)

lemma round64_tenth_sum2: "round64 (3602879701896397 / 18014398509481984) = Finite (3602879701896397 / 18014398509481984)"
  using round64_eval [of "- 3" "3602879701896397 / 18014398509481984" 7205759403792794]
    round_half_even_nearest [of 7205759403792794 "7205759403792794"]
  by (simp add: pow2_def)

lemma round64_tenth_sum3: "round64 (10808639105689191 / 36028797018963968) = Finite (1351079888211149 / 4503599627370496)"
  using round64_eval [of "- 2" "10808639105689191 / 36028797018963968" 5404319552844596]
    round_half_even_tie [of "10808639105689191 / 2" 5404319552844595]
  by (simp add: pow2_def)

lemma round64_tenth_sum4: "round64 (14411518807585589 / 36028797018963968) = Finite (3602879701896397 / 9007199254740992)"
  using round64_eval [of "- 2" "14411518807585589 / 36028797018963968" 7205759403792794]
    round_half_even_tie [of "14411518807585589 / 2" 7205759403792794]
  by (simp add: pow2_def)

lemma round64_tenth_sum5: "round64 (18014398509481985 / 36028797018963968) = Finite (1 / 2)"
  using round64_eval [of "- 1" "18014398509481985 / 36028797018963968" 4503599627370496]
    round_half_even_nearest [of 4503599627370496 "18014398509481985 / 4"]
  by (simp add: pow2_def)

lemma round64_tenth_sum6: "round64 (21617278211378381 / 36028797018963968) = Finite (5404319552844595 / 9007199254740992)"
  using round64_eval [of "- 1" "21617278211378381 / 36028797018963968" 5404319552844595]
    round_half_even_nearest [of 5404319552844595 "21617278211378381 / 4"]
  by (simp add: pow2_def)

lemma round64_six_tenths: "round64 (10808639105689191 / 18014398509481984) = Finite (1351079888211149 / 2251799813685248)"
  using round64_eval [of "- 1" "10808639105689191 / 18014398509481984" 5404319552844596]
    round_half_even_tie [of "10808639105689191 / 2" 5404319552844595]
  by (simp add: pow2_def)

lemma round64_sixth: "round64 (1 / 6) = Finite (6004799503160661 / 36028797018963968)"
  using round64_eval [of "- 3" "1 / 6" 6004799503160661]
    round_half_even_nearest [of 6004799503160661 "18014398509481984 / 3"]
  by (simp add: pow2_def)

lemma round64_rk4_sum2: "round64 (9007199254740993 / 18014398509481984) = Finite (1 / 2)"
  using round64_eval [of "- 1" "9007199254740993 / 18014398509481984" 4503599627370496]
    round_half_even_tie [of "9007199254740993 / 2" 4503599627370496]
  by (simp add: pow2_def)

lemma round64_rk4_incr: "round64 (32451855365842669675915850477295 / 324518553658426726783156020576256) = Finite (7205759403792793 / 72057594037927936)"
  using round64_eval [of "- 4" "32451855365842669675915850477295 / 324518553658426726783156020576256" 7205759403792793]
    round_half_even_nearest [of 7205759403792793 "32451855365842669675915850477295 / 4503599627370496"]
  by (simp add: pow2_def)

lemma round64_sixth_of_six: "round64 (18014398509481983 / 18014398509481984) = Finite 1"
  using round64_eval [of "- 1" "18014398509481983 / 18014398509481984" 9007199254740992]
    round_half_even_tie [of "18014398509481983 / 2" 9007199254740991]
  by (simp add: pow2_def)

lemma round64_ten_ninths: "round64 (10 / 9) = Finite (2501999792983609 / 2251799813685248)"
  using round64_eval [of 0 "10 / 9" 5003999585967218]
    round_half_even_nearest [of 5003999585967218 "45035996273704960 / 9"]
  by (simp add: pow2_def)

text \<open>Roundings of subnormal values, with \<open>2\<^sup>-\<^sup>1\<^sup>0\<^sup>7\<^sup>4\<close> written out, and of a
  grid value of the docstrings' calls.\<close>

lemma round64_subnormal_step: "round64 (3 / 1012011266536553091762476733594586535247783248820710591784506790137151697839976734459801918507185622475935389321584059556949043686928967384335066999703692549607587121382831806822334538710466081706198838392363725342810037417123463493090516778245797781704050282561793847761667073076152512660931637543230031316538538705467473920) = Finite (1 / 202402253307310618352495346718917307049556649764142118356901358027430339567995346891960383701437124495187077864316811911389808737385793476867013399940738509921517424276566361364466907742093216341239767678472745068562007483424692698618103355649159556340810056512358769552333414615230502532186327508646006263307707741093494784)"
  using round64_eval [of "- 1075" "3 / 1012011266536553091762476733594586535247783248820710591784506790137151697839976734459801918507185622475935389321584059556949043686928967384335066999703692549607587121382831806822334538710466081706198838392363725342810037417123463493090516778245797781704050282561793847761667073076152512660931637543230031316538538705467473920" 1]
    round_half_even_nearest [of 1 "3 / 5"]
  by (simp add: pow2_def)

lemma round64_subnormal_1: "round64 (1 / 202402253307310618352495346718917307049556649764142118356901358027430339567995346891960383701437124495187077864316811911389808737385793476867013399940738509921517424276566361364466907742093216341239767678472745068562007483424692698618103355649159556340810056512358769552333414615230502532186327508646006263307707741093494784) = Finite (1 / 202402253307310618352495346718917307049556649764142118356901358027430339567995346891960383701437124495187077864316811911389808737385793476867013399940738509921517424276566361364466907742093216341239767678472745068562007483424692698618103355649159556340810056512358769552333414615230502532186327508646006263307707741093494784)"
  using round64_eval [of "- 1074" "1 / 202402253307310618352495346718917307049556649764142118356901358027430339567995346891960383701437124495187077864316811911389808737385793476867013399940738509921517424276566361364466907742093216341239767678472745068562007483424692698618103355649159556340810056512358769552333414615230502532186327508646006263307707741093494784" 1]
    round_half_even_nearest [of 1 "1"]
  by (simp add: pow2_def)

lemma round64_subnormal_2: "round64 (1 / 101201126653655309176247673359458653524778324882071059178450679013715169783997673445980191850718562247593538932158405955694904368692896738433506699970369254960758712138283180682233453871046608170619883839236372534281003741712346349309051677824579778170405028256179384776166707307615251266093163754323003131653853870546747392) = Finite (1 / 101201126653655309176247673359458653524778324882071059178450679013715169783997673445980191850718562247593538932158405955694904368692896738433506699970369254960758712138283180682233453871046608170619883839236372534281003741712346349309051677824579778170405028256179384776166707307615251266093163754323003131653853870546747392)"
  using round64_eval [of "- 1073" "1 / 101201126653655309176247673359458653524778324882071059178450679013715169783997673445980191850718562247593538932158405955694904368692896738433506699970369254960758712138283180682233453871046608170619883839236372534281003741712346349309051677824579778170405028256179384776166707307615251266093163754323003131653853870546747392" 2]
    round_half_even_nearest [of 2 "2"]
  by (simp add: pow2_def)

lemma round64_subnormal_3: "round64 (3 / 202402253307310618352495346718917307049556649764142118356901358027430339567995346891960383701437124495187077864316811911389808737385793476867013399940738509921517424276566361364466907742093216341239767678472745068562007483424692698618103355649159556340810056512358769552333414615230502532186327508646006263307707741093494784) = Finite (3 / 202402253307310618352495346718917307049556649764142118356901358027430339567995346891960383701437124495187077864316811911389808737385793476867013399940738509921517424276566361364466907742093216341239767678472745068562007483424692698618103355649159556340810056512358769552333414615230502532186327508646006263307707741093494784)"
  using round64_eval [of "- 1073" "3 / 202402253307310618352495346718917307049556649764142118356901358027430339567995346891960383701437124495187077864316811911389808737385793476867013399940738509921517424276566361364466907742093216341239767678472745068562007483424692698618103355649159556340810056512358769552333414615230502532186327508646006263307707741093494784" 3]
    round_half_even_nearest [of 3 "3"]
  by (simp add: pow2_def)

lemma round64_subnormal_4: "round64 (1 / 50600563326827654588123836679729326762389162441035529589225339506857584891998836722990095925359281123796769466079202977847452184346448369216753349985184627480379356069141590341116726935523304085309941919618186267140501870856173174654525838912289889085202514128089692388083353653807625633046581877161501565826926935273373696) = Finite (1 / 50600563326827654588123836679729326762389162441035529589225339506857584891998836722990095925359281123796769466079202977847452184346448369216753349985184627480379356069141590341116726935523304085309941919618186267140501870856173174654525838912289889085202514128089692388083353653807625633046581877161501565826926935273373696)"
  using round64_eval [of "- 1072" "1 / 50600563326827654588123836679729326762389162441035529589225339506857584891998836722990095925359281123796769466079202977847452184346448369216753349985184627480379356069141590341116726935523304085309941919618186267140501870856173174654525838912289889085202514128089692388083353653807625633046581877161501565826926935273373696" 4]
    round_half_even_nearest [of 4 "4"]
  by (simp add: pow2_def)

lemma round64_three_steps: "round64 (7505999378950827 / 2251799813685248) = Finite (7505999378950827 / 2251799813685248)"
  using round64_eval [of 1 "7505999378950827 / 2251799813685248" 7505999378950827]
    round_half_even_nearest [of 7505999378950827 "7505999378950827"]
  by (simp add: pow2_def)

section \<open>A constant derivative\<close>

lemma trajectory_iterate:
  assumes "0 < n"
  shows "fold (\<lambda>i x. x[Suc i := G (x ! i)]) [0..<n - 1] ((zeros A n)[0 := xi]) =
         map (\<lambda>i. (G ^^ i) xi) [0..<n]"
proof (rule nth_equalityI)
  note T = trajectory [OF assms, where r = "\<lambda>xv tv. G xv" and A = A and xi = xi]
  show "length (fold (\<lambda>i x. x[Suc i := G (x ! i)]) [0..<n - 1] ((zeros A n)[0 := xi])) =
        length (map (\<lambda>i. (G ^^ i) xi) [0..<n])"
    using T(1) by simp
  have "i < n \<Longrightarrow>
        fold (\<lambda>i x. x[Suc i := G (x ! i)]) [0..<n - 1] ((zeros A n)[0 := xi]) ! i = (G ^^ i) xi"
    for i
  proof (induction i)
    case 0
    then show ?case using T(2) by simp
  next
    case (Suc i)
    then show ?case using T(3) [of i] by simp
  qed
  then show "fold (\<lambda>i x. x[Suc i := G (x ! i)]) [0..<n - 1] ((zeros A n)[0 := xi]) ! i =
             map (\<lambda>i. (G ^^ i) xi) [0..<n] ! i"
    if "i < length (fold (\<lambda>i x. x[Suc i := G (x ! i)]) [0..<n - 1] ((zeros A n)[0 := xi]))"
    for i
    using that T(1) by simp
qed

text \<open>With a constant \<open>f\<close> every step applies one and the same function to \<open>x[i]\<close>.\<close>

lemma Euler_constant_run:
  assumes "1 \<le> N"
  shows "Euler A (pure (\<lambda>x t. c)) N xi ti tf w =
         Inr (map (\<lambda>i. ((\<lambda>v. fadd A v (fmul A (fdiv A (fsub A tf ti) (from_int A N)) c)) ^^ i) xi)
                [0..<nat N], w)"
proof -
  obtain t where t: "linspace A ti tf N = Inr t"
    using linspace_Inr [of N A ti tf] assms by auto
  have pos: "0 < nat N" using assms by simp
  have "Euler A (pure (\<lambda>x t. c)) N xi ti tf w =
        Inr (fold (\<lambda>i x. x[Suc i :=
                     fadd A (x ! i) (fmul A (fdiv A (fsub A tf ti) (from_int A N)) c)])
               [0..<nat N - 1] ((zeros A (nat N))[0 := xi]), w)"
    by (rule Euler_pure_run [OF assms t]) (simp add: Euler_rule_pure)
  also note trajectory_iterate [OF pos,
      where G = "\<lambda>v. fadd A v (fmul A (fdiv A (fsub A tf ti) (from_int A N)) c)"]
  finally show ?thesis .
qed

lemma RK2_constant_run:
  assumes "1 \<le> N"
  shows "RK2 A (pure (\<lambda>x t. c)) N xi ti tf w =
         Inr (map (\<lambda>i. ((\<lambda>v. fadd A v (fmul A (fdiv A (fsub A tf ti) (from_int A N)) c)) ^^ i) xi)
                [0..<nat N], w)"
proof -
  obtain t where t: "linspace A ti tf N = Inr t"
    using linspace_Inr [of N A ti tf] assms by auto
  have pos: "0 < nat N" using assms by simp
  have "RK2 A (pure (\<lambda>x t. c)) N xi ti tf w =
        Inr (fold (\<lambda>i x. x[Suc i :=
                     fadd A (x ! i) (fmul A (fdiv A (fsub A tf ti) (from_int A N)) c)])
               [0..<nat N - 1] ((zeros A (nat N))[0 := xi]), w)"
    by (rule RK2_pure_run [OF assms t]) (simp add: RK2_rule_pure)
  also note trajectory_iterate [OF pos,
      where G = "\<lambda>v. fadd A v (fmul A (fdiv A (fsub A tf ti) (from_int A N)) c)"]
  finally show ?thesis .
qed

lemma RK4_constant_run:
  assumes "1 \<le> N"
  shows "RK4 A (pure (\<lambda>x t. c)) N xi ti tf w =
         Inr (map (\<lambda>i. ((\<lambda>v. let k = fmul A (fdiv A (fsub A tf ti) (from_int A N)) c
                           in fadd A v
                                (fmul A (fdiv A (from_int A 1) (from_int A 6))
                                   (fadd A (fadd A (fadd A k (fmul A (from_int A 2) k))
                                              (fmul A (from_int A 2) k)) k))) ^^ i) xi)
                [0..<nat N], w)"
proof -
  obtain t where t: "linspace A ti tf N = Inr t"
    using linspace_Inr [of N A ti tf] assms by auto
  have pos: "0 < nat N" using assms by simp
  define G where "G = (\<lambda>v. let k = fmul A (fdiv A (fsub A tf ti) (from_int A N)) c
                           in fadd A v
                                (fmul A (fdiv A (from_int A 1) (from_int A 6))
                                   (fadd A (fadd A (fadd A k (fmul A (from_int A 2) k))
                                              (fmul A (from_int A 2) k)) k)))"
  have "RK4 A (pure (\<lambda>x t. c)) N xi ti tf w =
        Inr (fold (\<lambda>i x. x[Suc i := G (x ! i)])
               [0..<nat N - 1] ((zeros A (nat N))[0 := xi]), w)"
    by (rule RK4_pure_run [OF assms t]) (simp add: RK4_rule_pure G_def Let_def)
  also note trajectory_iterate [OF pos, where G = G]
  finally show ?thesis
    unfolding G_def .
qed

lemma funpow_add_const:
  fixes a d :: "'a::linordered_field"
  shows "((\<lambda>v. v + d) ^^ i) a = a + of_nat i * d"
  by (induction i) (simp_all add: algebra_simps)

lemma steppers_agree_on_errors:
  assumes "N \<le> 0"
  shows "Euler A f N xi ti tf w = RK2 A g N xi ti tf w"
    and "RK4 A k N xi ti tf w = Euler A f N xi ti tf w"
  using harness_error [OF Euler_harness assms, of A f xi ti tf w]
    harness_error [OF RK2_harness assms, of A g xi ti tf w]
    harness_error [OF RK4_harness assms, of A k xi ti tf w]
  by simp_all

section \<open>The time grid\<close>

lemma linspace_exact:
  fixes a b :: "'a::linordered_field"
  assumes "1 \<le> N"
  shows "\<exists>t. linspace exact a b N = Inr t \<and> length t = nat N
           \<and> (\<forall>i<nat N. t ! i = a + of_nat i * ((b - a) / (of_int N - 1)))"
proof (cases "N = 1")
  case True
  then show ?thesis
    by (simp add: linspace_one exact_def)
next
  case False
  with assms have N: "2 \<le> N" by simp
  define s where "s = (b - a) / (of_int N - 1)"
  define y where "y = map (\<lambda>k. of_int (int k) * s + a) [0..<nat N]"
  have "(1::'a) < of_int N"
    using N by simp
  then have d: "(of_int N :: 'a) - 1 \<noteq> 0"
    by simp
  have z: "s = 0 \<Longrightarrow> b - a = 0"
    using d by (simp add: s_def)
  have lin: "linspace exact a b N = Inr (y[nat N - 1 := b])"
    using N z unfolding linspace_def exact_def Let_def y_def s_def
    by (auto simp: comp_def)
  have len: "length (y[nat N - 1 := b]) = nat N"
    by (simp add: y_def)
  have "(y[nat N - 1 := b]) ! i = a + of_nat i * s" if "i < nat N" for i
  proof (cases "i = nat N - 1")
    case True
    have "of_nat (nat N - 1) = (of_int N :: 'a) - 1"
      using N by (simp add: of_nat_diff)
    then have "a + of_nat i * s = b"
      using d by (simp add: True s_def)
    then show ?thesis
      using that True by (simp add: y_def)
  next
    case False
    then show ?thesis
      using that by (simp add: y_def)
  qed
  then show ?thesis
    using lin len by (auto simp: s_def)
qed

lemma linspace_last:
  assumes "2 \<le> N"
  shows "\<exists>t. linspace A ti tf N = Inr t \<and> last t = tf"
  using assms by (simp add: linspace_def Let_def last_list_update)

lemma linspace_exact_monotonic:
  fixes a b :: "'a::linordered_field"
  assumes N: "1 \<le> N" and t: "linspace exact a b N = Inr t" and ab: "a \<noteq> b"
  shows "strictly_monotonic exact t"
proof -
  obtain t' where t': "linspace exact a b N = Inr t'" and len: "length t' = nat N"
    and nth: "\<forall>i<nat N. t' ! i = a + of_nat i * ((b - a) / (of_int N - 1))"
    using linspace_exact [OF N, of a b] by blast
  have tt: "t' = t" using t t' by simp
  define s where "s = (b - a) / (of_int N - 1)"
  have pos: "(0::'a) < of_int N - 1" if "i < j" "j < nat N" for i j :: nat
    using that by simp
  show ?thesis
  proof (cases "a < b")
    case True
    have "t ! i < t ! j" if "i < j" "j < length t" for i j
    proof -
      have "0 < s"
        using True pos [OF that(1)] that(2) len tt by (simp add: s_def)
      then have "of_nat i * s < of_nat j * s"
        using that(1) by simp
      then show ?thesis
        using nth that len tt by (simp add: s_def)
    qed
    then have "sorted_wrt (<) t"
      by (simp add: sorted_wrt_iff_nth_less)
    then show ?thesis
      by (simp add: strictly_monotonic_def exact_def)
  next
    case False
    with ab have ba: "b < a" by simp
    have "t ! j < t ! i" if "i < j" "j < length t" for i j
    proof -
      have "s < 0"
        using ba pos [OF that(1)] that(2) len tt by (simp add: s_def divide_neg_pos)
      then have "of_nat j * s < of_nat i * s"
        using that(1) by (simp add: mult_less_cancel_right)
      then show ?thesis
        using nth that len tt by (simp add: s_def)
    qed
    then have "sorted_wrt (\<lambda>x y. y < x) t"
      by (simp add: sorted_wrt_iff_nth_less)
    then show ?thesis
      by (simp add: strictly_monotonic_def exact_def)
  qed
qed

text \<open>Every grid value but the last is \<open>i * step + ti\<close>, or \<open>(i / (N - 1)) * (tf - ti) + ti\<close>
  when the step is zero, with every operation that of the arithmetic.\<close>

lemma linspace_nth:
  assumes "2 \<le> N" and "int i < N - 1" and "linspace A ti tf N = Inr t"
  shows "t ! i =
     fadd A (if feq A (fdiv A (fsub A tf ti) (from_int A (N - 1))) (from_int A 0)
             then fmul A (fdiv A (from_int A (int i)) (from_int A (N - 1))) (fsub A tf ti)
             else fmul A (from_int A (int i)) (fdiv A (fsub A tf ti) (from_int A (N - 1)))) ti"
proof -
  have i: "i < nat N" "i \<noteq> nat N - 1"
    using assms(1,2) by simp_all
  show ?thesis
    using assms(1,3) i by (auto simp: linspace_def Let_def nth_list_update)
qed

text \<open>In binary64 the first grid value is \<open>ti\<close> as long as \<open>ti\<close>, \<open>tf - ti\<close> and the step
  are finite; for a \<open>ti\<close> of \<open>-0.0\<close> it can be \<open>0.0\<close>, which is equal to it.\<close>

lemma first_value64:
  assumes "is_finite x" and "round64 (value64 x) = Finite (value64 x)" and "is_finite z"
  shows "eq64 (add64 (mul64 (Finite 0) z) x) x"
    and "add64 (mul64 (Finite 0) z) x = x \<or> x = NegZero"
  using assms by (cases x; cases z; simp add: zero64_def)+

lemma linspace64_first:
  assumes x: "is_finite x" "round64 (value64 x) = Finite (value64 x)"
    and d: "is_finite (sub64 y x)"
    and N: "N = 1 \<or> 2 \<le> N \<and> N \<le> 2 ^ 53 \<and> is_finite (div64 (sub64 y x) (round64 (of_int (N - 1))))"
  shows "\<exists>t. linspace binary64 x y N = Inr t \<and> eq64 (t ! 0) x \<and> (t ! 0 = x \<or> x = NegZero)"
proof (cases "N = 1")
  case True
  then show ?thesis
    using first_value64 [OF x d] by (simp add: linspace_one binary64_def)
next
  case False
  with N have N2: "2 \<le> N" and le: "N \<le> 2 ^ 53"
    and s: "is_finite (div64 (sub64 y x) (round64 (of_int (N - 1))))"
    by simp_all
  obtain t where t: "linspace binary64 x y N = Inr t"
    using linspace_Inr [of N binary64 x y] N2 by auto
  have m: "round64 (of_int N - 1) = Finite (of_int N - 1)"
    using N2 le round64_int [of "N - 1"] by simp
  have z: "div64 (Finite 0) (Finite (of_int N - 1)) = Finite 0"
    using N2 by simp
  define step where "step = div64 (sub64 y x) (Finite (of_int N - 1))"
  have s': "is_finite step"
    using s by (simp add: m step_def)
  have "t ! 0 = add64 (mul64 (Finite 0) (if eq64 step (Finite 0) then sub64 y x else step)) x"
    using linspace_nth [OF N2 _ t, of 0] N2 by (simp add: binary64_def m z step_def)
  moreover have "is_finite (if eq64 step (Finite 0) then sub64 y x else step)"
    using d s' by simp
  ultimately show ?thesis
    using first_value64 [OF x] t by simp
qed

text \<open>Four grids in binary64.\<close>

lemma linspace64_collapse: "linspace binary64 (Finite 1) (Finite (4503599627370497 / 4503599627370496)) 3 =
   Inr [Finite 1, Finite 1, Finite (4503599627370497 / 4503599627370496)]"
  by (simp add: linspace_def binary64_def sub64_def Let_def round64_ulp_of_one round64_half_ulp_of_one round64_one_plus_half_ulp upt_rec)

lemma collapse_not_monotonic: "\<not> strictly_monotonic binary64 [Finite 1, Finite 1, Finite (4503599627370497 / 4503599627370496)]"
  by (simp add: strictly_monotonic_def binary64_def)

lemma linspace64_overflow: "linspace binary64 (Finite (- (2 ^ 1023))) (Finite (2 ^ 1023)) 2 =
   Inr [NaN, Finite (2 ^ 1023)]"
  using round64_two_pow_1024 by (simp add: linspace_def binary64_def sub64_def Let_def upt_rec)

lemma linspace64_nan: "linspace binary64 (Finite 0) NaN 1 = Inr [NaN]"
  by (simp add: linspace_one binary64_def sub64_def)

lemma linspace64_subnormal: "linspace binary64 (Finite 0) (Finite (3 / 202402253307310618352495346718917307049556649764142118356901358027430339567995346891960383701437124495187077864316811911389808737385793476867013399940738509921517424276566361364466907742093216341239767678472745068562007483424692698618103355649159556340810056512358769552333414615230502532186327508646006263307707741093494784)) 6 = Inr [Finite 0, Finite (1 / 202402253307310618352495346718917307049556649764142118356901358027430339567995346891960383701437124495187077864316811911389808737385793476867013399940738509921517424276566361364466907742093216341239767678472745068562007483424692698618103355649159556340810056512358769552333414615230502532186327508646006263307707741093494784), Finite (1 / 101201126653655309176247673359458653524778324882071059178450679013715169783997673445980191850718562247593538932158405955694904368692896738433506699970369254960758712138283180682233453871046608170619883839236372534281003741712346349309051677824579778170405028256179384776166707307615251266093163754323003131653853870546747392), Finite (3 / 202402253307310618352495346718917307049556649764142118356901358027430339567995346891960383701437124495187077864316811911389808737385793476867013399940738509921517424276566361364466907742093216341239767678472745068562007483424692698618103355649159556340810056512358769552333414615230502532186327508646006263307707741093494784), Finite (1 / 50600563326827654588123836679729326762389162441035529589225339506857584891998836722990095925359281123796769466079202977847452184346448369216753349985184627480379356069141590341116726935523304085309941919618186267140501870856173174654525838912289889085202514128089692388083353653807625633046581877161501565826926935273373696), Finite (3 / 202402253307310618352495346718917307049556649764142118356901358027430339567995346891960383701437124495187077864316811911389808737385793476867013399940738509921517424276566361364466907742093216341239767678472745068562007483424692698618103355649159556340810056512358769552333414615230502532186327508646006263307707741093494784)]"
  by (simp add: linspace_def binary64_def sub64_def Let_def upt_rec
      round64_subnormal_step round64_subnormal_1 round64_subnormal_2 round64_subnormal_3 round64_subnormal_4)

section \<open>The docstrings' examples\<close>

text \<open>
  The module's docstrings show \<open>Euler\<close>, \<open>RK2\<close> and \<open>RK4\<close> on \<open>f(x, t) = x + t\<close> with
  \<open>N = 10\<close>, \<open>xi = 0.0\<close>, \<open>ti = 0.0\<close>, \<open>tf = 10.0\<close>. Without rounding the model returns
  the rationals below; to the digits printed they are the docstrings' arrays
  (\<open>10 / 9 = 1.11111111\<close>, \<open>41 / 12 = 3.41666667\<close>, \<open>17 / 24 = 0.708333333\<close>, ...).
\<close>

lemma upt10: "[0..<10] = [0, 1, 2, 3, 4, 5, 6, 7, 8, 9]" "[0..<9] = [0, 1, 2, 3, 4, 5, 6, 7, 8]"
  by (simp_all add: upt_rec)

lemma docstring_grid:
  "linspace exact (0::rat) 10 10 =
   Inr [0, 10 / 9, 20 / 9, 10 / 3, 40 / 9, 50 / 9, 20 / 3, 70 / 9, 80 / 9, 10]"
  by (simp add: linspace_def exact_def Let_def upt10)

lemma docstring_step: "fdiv exact (fsub exact (10::rat) 0) (from_int exact 10) = 1"
  by (simp add: exact_def)

lemma zeros_exact: "zeros exact n = replicate n 0"
  by (simp add: zeros_def exact_def)

lemma Euler_rule_docstring:
  "Euler_rule exact (pure (\<lambda>x t. x + t)) 1 xv tv w = (xv + (xv + tv) :: rat, w)"
  by (simp add: Euler_rule_pure exact_def)

lemma RK2_rule_docstring:
  "RK2_rule exact (pure (\<lambda>x t. x + t)) 1 xv tv w =
   (xv + (xv + (xv + tv) / 2 + (tv + 1 / 2)) :: rat, w)"
  by (simp add: RK2_rule_pure exact_def Let_def)

lemma RK4_rule_docstring:
  "RK4_rule exact (pure (\<lambda>x t. x + t)) 1 xv tv w =
   (xv + (41 * xv + 41 * tv + 17) / 24 :: rat, w)"
  by (simp add: RK4_rule_pure exact_def Let_def field_simps)

lemma Euler_docstring_example:
  "Euler exact (pure (\<lambda>x t. x + t)) 10 (0::rat) 0 10 () =
   Inr ([0, 0, 10 / 9, 40 / 9, 110 / 9, 260 / 9, 190 / 3, 400 / 3, 2470 / 9, 5020 / 9], ())"
  unfolding Euler_def docstring_grid docstring_step Let_def
  by (simp add: zeros_exact upt10 assign_next_def Euler_rule_docstring)

lemma RK2_docstring_example:
  "RK2 exact (pure (\<lambda>x t. x + t)) 10 (0::rat) 0 10 () =
   Inr ([0, 1 / 2, 41 / 12, 99 / 8, 583 / 16, 9433 / 96, 16287 / 64, 82779 / 128,
         1251029 / 768, 2092131 / 512], ())"
  unfolding RK2_def docstring_grid docstring_step Let_def
  by (simp add: zeros_exact upt10 assign_next_def RK2_rule_docstring)

lemma RK4_docstring_example:
  "RK4 exact (pure (\<lambda>x t. x + t)) 10 (0::rat) 0 10 () =
   Inr ([0, 17 / 24, 7819 / 1728, 695051 / 41472, 51551179 / 995328, 3549118091 / 23887872,
         236539896139 / 573308928, 15541543941131 / 13759414272,
         1014821990545099 / 330225942528, 66089392236620171 / 7925422620672], ())"
  unfolding RK4_def docstring_grid docstring_step Let_def
  by (simp add: zeros_exact upt10 assign_next_def RK4_rule_docstring)

section \<open>The update rules\<close>

text \<open>
  Claim C1. For a pure \<open>f\<close> and \<open>N \<ge> 2\<close>, \<open>RK4\<close> returns an array \<open>x\<close> with, for every
  \<open>i\<close> from \<open>0\<close> to \<open>N - 2\<close>, \<open>x[i+1] = x[i] + (1/6) * (k1 + 2*k2 + 2*k3 + k4)\<close>, where
  \<open>h = (tf - ti) / N\<close>, \<open>t\<close> is the grid \<open>linspace(ti, tf, N)\<close>, \<open>k1 = h * f(x[i], t[i])\<close>,
  \<open>k2 = h * f(x[i] + k1/2, t[i] + h/2)\<close>, \<open>k3 = h * f(x[i] + k2/2, t[i] + h/2)\<close> and
  \<open>k4 = h * f(x[i] + k3, t[i] + h)\<close>. The operations are those of the arithmetic, in
  the order Python evaluates them; the statement holds for every arithmetic.
\<close>

theorem RK4_update_rule:
  assumes "2 \<le> N"
  shows "\<exists>t x. linspace A ti tf N = Inr t \<and> RK4 A (pure f) N xi ti tf w = Inr (x, w)
           \<and> (\<forall>i. int i \<le> N - 2 \<longrightarrow>
                 (let h = fdiv A (fsub A tf ti) (from_int A N);
                      k1 = fmul A h (f (x ! i) (t ! i));
                      k2 = fmul A h (f (fadd A (x ! i) (fdiv A k1 (from_int A 2)))
                                       (fadd A (t ! i) (fdiv A h (from_int A 2))));
                      k3 = fmul A h (f (fadd A (x ! i) (fdiv A k2 (from_int A 2)))
                                       (fadd A (t ! i) (fdiv A h (from_int A 2))));
                      k4 = fmul A h (f (fadd A (x ! i) k3) (fadd A (t ! i) h))
                  in x ! (i + 1) =
                     fadd A (x ! i)
                       (fmul A (fdiv A (from_int A 1) (from_int A 6))
                          (fadd A (fadd A (fadd A k1 (fmul A (from_int A 2) k2))
                                     (fmul A (from_int A 2) k3)) k4))))"
proof -
  obtain t where t: "linspace A ti tf N = Inr t"
    using linspace_Inr [of N A ti tf] assms by auto
  define h where "h = fdiv A (fsub A tf ti) (from_int A N)"
  define r where "r = (\<lambda>xv tv. fst (RK4_rule A (pure f) h xv tv ()))"
  define X where "X = fold (\<lambda>i x. x[Suc i := r (x ! i) (t ! i)]) [0..<nat N - 1]
                        ((zeros A (nat N))[0 := xi])"
  have r: "RK4_rule A (pure f) h xv tv w = (r xv tv, w)" for xv tv and w :: 'b
    by (simp add: r_def RK4_rule_pure Let_def)
  have run: "RK4 A (pure f) N xi ti tf w = Inr (X, w)"
    unfolding X_def using assms t r [unfolded h_def] by (intro RK4_pure_run) simp_all
  have "X ! Suc i = r (X ! i) (t ! i)" if "int i \<le> N - 2" for i
    unfolding X_def using that assms by (intro trajectory(3)) simp_all
  then show ?thesis
    using t run by (auto simp: r_def h_def RK4_rule_pure Let_def)
qed

text \<open>The docstring's call \<open>RK4(f, 10, 0.0, 0.0, 10.0)\<close> with \<open>f(x, t) = x + t\<close>, at the last
  step.\<close>

theorem RK4_update_rule_witness:
  "\<exists>t x. linspace binary64 (Finite 0) (Finite 10) 10 = Inr t
     \<and> RK4 binary64 (pure add64) 10 (Finite 0) (Finite 0) (Finite 10) () = Inr (x, ())
     \<and> (let h = fdiv binary64 (fsub binary64 (Finite 10) (Finite 0)) (from_int binary64 10);
            k1 = fmul binary64 h (add64 (x ! 8) (t ! 8));
            k2 = fmul binary64 h
                   (add64 (fadd binary64 (x ! 8) (fdiv binary64 k1 (from_int binary64 2)))
                          (fadd binary64 (t ! 8) (fdiv binary64 h (from_int binary64 2))));
            k3 = fmul binary64 h
                   (add64 (fadd binary64 (x ! 8) (fdiv binary64 k2 (from_int binary64 2)))
                          (fadd binary64 (t ! 8) (fdiv binary64 h (from_int binary64 2))));
            k4 = fmul binary64 h (add64 (fadd binary64 (x ! 8) k3) (fadd binary64 (t ! 8) h))
        in x ! 9 =
           fadd binary64 (x ! 8)
             (fmul binary64 (fdiv binary64 (from_int binary64 1) (from_int binary64 6))
                (fadd binary64 (fadd binary64 (fadd binary64 k1 (fmul binary64 (from_int binary64 2) k2))
                           (fmul binary64 (from_int binary64 2) k3)) k4)))"
proof -
  have N: "(2::int) \<le> 10" by simp
  obtain t x where "linspace binary64 (Finite 0) (Finite 10) 10 = Inr t"
    and "RK4 binary64 (pure add64) 10 (Finite 0) (Finite 0) (Finite 10) () = Inr (x, ())"
    and step: "\<forall>i. int i \<le> 10 - 2 \<longrightarrow>
                 (let h = fdiv binary64 (fsub binary64 (Finite 10) (Finite 0)) (from_int binary64 10);
                      k1 = fmul binary64 h (add64 (x ! i) (t ! i));
                      k2 = fmul binary64 h (add64 (fadd binary64 (x ! i) (fdiv binary64 k1 (from_int binary64 2)))
                                       (fadd binary64 (t ! i) (fdiv binary64 h (from_int binary64 2))));
                      k3 = fmul binary64 h (add64 (fadd binary64 (x ! i) (fdiv binary64 k2 (from_int binary64 2)))
                                       (fadd binary64 (t ! i) (fdiv binary64 h (from_int binary64 2))));
                      k4 = fmul binary64 h (add64 (fadd binary64 (x ! i) k3) (fadd binary64 (t ! i) h))
                  in x ! (i + 1) =
                     fadd binary64 (x ! i)
                       (fmul binary64 (fdiv binary64 (from_int binary64 1) (from_int binary64 6))
                          (fadd binary64 (fadd binary64 (fadd binary64 k1 (fmul binary64 (from_int binary64 2) k2))
                                     (fmul binary64 (from_int binary64 2) k3)) k4)))"
    using RK4_update_rule [OF N, of binary64 "Finite 0" "Finite 10" add64 "Finite 0" "()"]
    by blast
  from step [rule_format, of 8] show ?thesis
    using \<open>linspace binary64 (Finite 0) (Finite 10) 10 = Inr t\<close>
      \<open>RK4 binary64 (pure add64) 10 (Finite 0) (Finite 0) (Finite 10) () = Inr (x, ())\<close>
    by (intro exI [of _ t] exI [of _ x]) simp
qed

text \<open>
  Claim C2. For a pure \<open>f\<close> and \<open>N \<ge> 2\<close>, \<open>Euler\<close> returns an array \<open>x\<close> with
  \<open>x[i+1] = x[i] + h * f(x[i], t[i])\<close> for every \<open>i\<close> from \<open>0\<close> to \<open>N - 2\<close>, where
  \<open>h = (tf - ti) / N\<close> is the same for every step and \<open>t\<close> is the grid
  \<open>linspace(ti, tf, N)\<close>.
\<close>

theorem Euler_update_rule:
  assumes "2 \<le> N"
  shows "\<exists>t x. linspace A ti tf N = Inr t \<and> Euler A (pure f) N xi ti tf w = Inr (x, w)
           \<and> (\<forall>i. int i \<le> N - 2 \<longrightarrow>
                 x ! (i + 1) =
                 fadd A (x ! i)
                   (fmul A (fdiv A (fsub A tf ti) (from_int A N)) (f (x ! i) (t ! i))))"
proof -
  obtain t where t: "linspace A ti tf N = Inr t"
    using linspace_Inr [of N A ti tf] assms by auto
  define h where "h = fdiv A (fsub A tf ti) (from_int A N)"
  define r where "r = (\<lambda>xv tv. fadd A xv (fmul A h (f xv tv)))"
  define X where "X = fold (\<lambda>i x. x[Suc i := r (x ! i) (t ! i)]) [0..<nat N - 1]
                        ((zeros A (nat N))[0 := xi])"
  have r: "Euler_rule A (pure f) h xv tv w = (r xv tv, w)" for xv tv and w :: 'b
    by (simp add: r_def Euler_rule_pure)
  have run: "Euler A (pure f) N xi ti tf w = Inr (X, w)"
    unfolding X_def using assms t r [unfolded h_def] by (intro Euler_pure_run) simp_all
  have "X ! Suc i = r (X ! i) (t ! i)" if "int i \<le> N - 2" for i
    unfolding X_def using that assms by (intro trajectory(3)) simp_all
  then show ?thesis
    using t run by (auto simp: r_def h_def)
qed

text \<open>The docstring's call \<open>Euler(f, 10, 0.0, 0.0, 10.0)\<close> with \<open>f(x, t) = x + t\<close>, at the
  first step.\<close>

theorem Euler_update_rule_witness:
  "\<exists>t x. linspace binary64 (Finite 0) (Finite 10) 10 = Inr t
     \<and> Euler binary64 (pure add64) 10 (Finite 0) (Finite 0) (Finite 10) () = Inr (x, ())
     \<and> x ! 1 =
        fadd binary64 (x ! 0)
          (fmul binary64 (fdiv binary64 (fsub binary64 (Finite 10) (Finite 0))
             (from_int binary64 10)) (add64 (x ! 0) (t ! 0)))"
proof -
  have N: "(2::int) \<le> 10" by simp
  obtain t x where t: "linspace binary64 (Finite 0) (Finite 10) 10 = Inr t"
    and x: "Euler binary64 (pure add64) 10 (Finite 0) (Finite 0) (Finite 10) () = Inr (x, ())"
    and step: "\<forall>i. int i \<le> 10 - 2 \<longrightarrow>
                 x ! (i + 1) =
                 fadd binary64 (x ! i)
                   (fmul binary64 (fdiv binary64 (fsub binary64 (Finite 10) (Finite 0))
                      (from_int binary64 10)) (add64 (x ! i) (t ! i)))"
    using Euler_update_rule [OF N, of binary64 "Finite 0" "Finite 10" add64 "Finite 0" "()"]
    by blast
  from step [rule_format, of 0] show ?thesis
    using t x by (intro exI [of _ t] exI [of _ x]) simp
qed

text \<open>
  Claim C3. For a pure \<open>f\<close> and \<open>N \<ge> 2\<close>, \<open>RK2\<close> returns an array \<open>x\<close> with
  \<open>x[i+1] = x[i] + k2\<close> for every \<open>i\<close> from \<open>0\<close> to \<open>N - 2\<close>, where \<open>h = (tf - ti) / N\<close>,
  \<open>k1 = h * f(x[i], t[i])\<close> and \<open>k2 = h * f(x[i] + k1/2, t[i] + h/2)\<close>: \<open>k1\<close> enters
  only through the point at which \<open>k2\<close> evaluates \<open>f\<close>.
\<close>

theorem RK2_update_rule:
  assumes "2 \<le> N"
  shows "\<exists>t x. linspace A ti tf N = Inr t \<and> RK2 A (pure f) N xi ti tf w = Inr (x, w)
           \<and> (\<forall>i. int i \<le> N - 2 \<longrightarrow>
                 (let h = fdiv A (fsub A tf ti) (from_int A N);
                      k1 = fmul A h (f (x ! i) (t ! i));
                      k2 = fmul A h (f (fadd A (x ! i) (fdiv A k1 (from_int A 2)))
                                       (fadd A (t ! i) (fdiv A h (from_int A 2))))
                  in x ! (i + 1) = fadd A (x ! i) k2))"
proof -
  obtain t where t: "linspace A ti tf N = Inr t"
    using linspace_Inr [of N A ti tf] assms by auto
  define h where "h = fdiv A (fsub A tf ti) (from_int A N)"
  define r where "r = (\<lambda>xv tv. fst (RK2_rule A (pure f) h xv tv ()))"
  define X where "X = fold (\<lambda>i x. x[Suc i := r (x ! i) (t ! i)]) [0..<nat N - 1]
                        ((zeros A (nat N))[0 := xi])"
  have r: "RK2_rule A (pure f) h xv tv w = (r xv tv, w)" for xv tv and w :: 'b
    by (simp add: r_def RK2_rule_pure Let_def)
  have run: "RK2 A (pure f) N xi ti tf w = Inr (X, w)"
    unfolding X_def using assms t r [unfolded h_def] by (intro RK2_pure_run) simp_all
  have "X ! Suc i = r (X ! i) (t ! i)" if "int i \<le> N - 2" for i
    unfolding X_def using that assms by (intro trajectory(3)) simp_all
  then show ?thesis
    using t run by (auto simp: r_def h_def RK2_rule_pure Let_def)
qed

text \<open>The docstring's call \<open>RK2(f, 10, 0.0, 0.0, 10.0)\<close> with \<open>f(x, t) = x + t\<close>, at the
  fourth step.\<close>

theorem RK2_update_rule_witness:
  "\<exists>t x. linspace binary64 (Finite 0) (Finite 10) 10 = Inr t
     \<and> RK2 binary64 (pure add64) 10 (Finite 0) (Finite 0) (Finite 10) () = Inr (x, ())
     \<and> (let h = fdiv binary64 (fsub binary64 (Finite 10) (Finite 0)) (from_int binary64 10);
            k1 = fmul binary64 h (add64 (x ! 3) (t ! 3));
            k2 = fmul binary64 h
                   (add64 (fadd binary64 (x ! 3) (fdiv binary64 k1 (from_int binary64 2)))
                          (fadd binary64 (t ! 3) (fdiv binary64 h (from_int binary64 2))))
        in x ! 4 = fadd binary64 (x ! 3) k2)"
proof -
  have N: "(2::int) \<le> 10" by simp
  obtain t x where t: "linspace binary64 (Finite 0) (Finite 10) 10 = Inr t"
    and x: "RK2 binary64 (pure add64) 10 (Finite 0) (Finite 0) (Finite 10) () = Inr (x, ())"
    and step: "\<forall>i. int i \<le> 10 - 2 \<longrightarrow>
                 (let h = fdiv binary64 (fsub binary64 (Finite 10) (Finite 0)) (from_int binary64 10);
                      k1 = fmul binary64 h (add64 (x ! i) (t ! i));
                      k2 = fmul binary64 h
                             (add64 (fadd binary64 (x ! i) (fdiv binary64 k1 (from_int binary64 2)))
                                    (fadd binary64 (t ! i) (fdiv binary64 h (from_int binary64 2))))
                  in x ! (i + 1) = fadd binary64 (x ! i) k2)"
    using RK2_update_rule [OF N, of binary64 "Finite 0" "Finite 10" add64 "Finite 0" "()"]
    by blast
  from step [rule_format, of 3] show ?thesis
    using t x by (intro exI [of _ t] exI [of _ x]) simp
qed

section \<open>Shape of the result, calls of \<open>f\<close>, errors and state\<close>

text \<open>
  Claim C4. For every stepper, every \<open>f\<close> (pure or not) and \<open>N \<ge> 1\<close>, the call returns
  an array of length exactly \<open>N\<close> whose first element is \<open>xi\<close>.
\<close>

theorem length_and_first_element:
  assumes "1 \<le> N"
  shows "(\<exists>x w'. Euler A f N xi ti tf w = Inr (x, w') \<and> int (length x) = N \<and> x ! 0 = xi)
       \<and> (\<exists>x w'. RK2 A f N xi ti tf w = Inr (x, w') \<and> int (length x) = N \<and> x ! 0 = xi)
       \<and> (\<exists>x w'. RK4 A f N xi ti tf w = Inr (x, w') \<and> int (length x) = N \<and> x ! 0 = xi)"
proof -
  have n: "length x = nat N \<Longrightarrow> int (length x) = N" for x :: "'a list"
    using assms by simp
  have "\<exists>x w'. Euler A f N xi ti tf w = Inr (x, w') \<and> int (length x) = N \<and> x ! 0 = xi"
    using harness_general [OF Euler_harness assms, of A f xi ti tf w] n by blast
  moreover
  have "\<exists>x w'. RK2 A f N xi ti tf w = Inr (x, w') \<and> int (length x) = N \<and> x ! 0 = xi"
    using harness_general [OF RK2_harness assms, of A f xi ti tf w] n by blast
  moreover
  have "\<exists>x w'. RK4 A f N xi ti tf w = Inr (x, w') \<and> int (length x) = N \<and> x ! 0 = xi"
    using harness_general [OF RK4_harness assms, of A f xi ti tf w] n by blast
  ultimately show ?thesis by blast
qed

theorem length_and_first_element_witness:
  "(\<exists>x w'. Euler binary64 (counted add64) 10 (Finite 0) (Finite 0) (Finite 10) 0 = Inr (x, w')
      \<and> int (length x) = 10 \<and> x ! 0 = Finite 0)
 \<and> (\<exists>x w'. RK2 binary64 (counted add64) 10 (Finite 0) (Finite 0) (Finite 10) 0 = Inr (x, w')
      \<and> int (length x) = 10 \<and> x ! 0 = Finite 0)
 \<and> (\<exists>x w'. RK4 binary64 (counted add64) 10 (Finite 0) (Finite 0) (Finite 10) 0 = Inr (x, w')
      \<and> int (length x) = 10 \<and> x ! 0 = Finite 0)"
proof -
  have N: "(1::int) \<le> 10" by simp
  show ?thesis
    by (rule length_and_first_element [OF N])
qed

text \<open>
  Claim C7. With \<open>N \<ge> 1\<close>, a call of \<open>Euler\<close>, \<open>RK2\<close>, \<open>RK4\<close> invokes \<open>f\<close> exactly
  \<open>1 * (N - 1)\<close>, \<open>2 * (N - 1)\<close>, \<open>4 * (N - 1)\<close> times: the counter that \<open>counted g\<close>
  advances at each call has advanced by that much on return. With \<open>N = 1\<close> the
  result is \<open>[xi]\<close> and the world of any \<open>f\<close> at all is untouched.
\<close>

theorem invocations_of_f:
  assumes "1 \<le> N"
  shows "(\<exists>x. Euler A (counted g) N xi ti tf n = Inr (x, n + 1 * nat (N - 1)))
       \<and> (\<exists>x. RK2 A (counted g) N xi ti tf n = Inr (x, n + 2 * nat (N - 1)))
       \<and> (\<exists>x. RK4 A (counted g) N xi ti tf n = Inr (x, n + 4 * nat (N - 1)))
       \<and> Euler A f 1 xi ti tf w = Inr ([xi], w)
       \<and> RK2 A f 1 xi ti tf w = Inr ([xi], w)
       \<and> RK4 A f 1 xi ti tf w = Inr ([xi], w)"
proof -
  have "\<exists>x. Euler A (counted g) N xi ti tf n = Inr (x, n + 1 * nat (N - 1))"
    by (rule harness_count [OF Euler_harness _ assms]) (rule Euler_rule_counted)
  moreover have "\<exists>x. RK2 A (counted g) N xi ti tf n = Inr (x, n + 2 * nat (N - 1))"
    by (rule harness_count [OF RK2_harness _ assms]) (rule RK2_rule_counted)
  moreover have "\<exists>x. RK4 A (counted g) N xi ti tf n = Inr (x, n + 4 * nat (N - 1))"
    by (rule harness_count [OF RK4_harness _ assms]) (rule RK4_rule_counted)
  ultimately show ?thesis
    by (simp add: single_step_free)
qed

theorem invocations_of_f_witness:
  "(\<exists>x. Euler binary64 (counted add64) 10 (Finite 0) (Finite 0) (Finite 10) 0 = Inr (x, 9))
 \<and> (\<exists>x. RK2 binary64 (counted add64) 10 (Finite 0) (Finite 0) (Finite 10) 0 = Inr (x, 18))
 \<and> (\<exists>x. RK4 binary64 (counted add64) 10 (Finite 0) (Finite 0) (Finite 10) 0 = Inr (x, 36))
 \<and> Euler binary64 (counted add64) 1 (Finite 0) (Finite 0) (Finite 10) 0 = Inr ([Finite 0], 0)
 \<and> RK2 binary64 (counted add64) 1 (Finite 0) (Finite 0) (Finite 10) 0 = Inr ([Finite 0], 0)
 \<and> RK4 binary64 (counted add64) 1 (Finite 0) (Finite 0) (Finite 10) 0 = Inr ([Finite 0], 0)"
proof -
  have N: "(1::int) \<le> 10" by simp
  show ?thesis
    using invocations_of_f [OF N, of binary64 add64 "Finite 0" "Finite 0" "Finite 10" 0
        "counted add64" 0]
    by simp
qed




text \<open>
  Claim C9. For a pure \<open>f\<close> and \<open>N \<ge> 1\<close>, the arguments of a call determine one array
  \<open>xs\<close>, of length \<open>N\<close> and with \<open>xs[0] = xi\<close>, and a call from any state of the
  interpreter at all, whatever calls of the steppers or anything else came before it,
  returns a reference to a newly allocated array whose contents are \<open>xs\<close>. The call
  changes no array that existed before it and leaves the world as it was. So two
  calls with the same arguments return equal sequences, in two different arrays, and
  the later call leaves the result of the earlier one intact.
\<close>

theorem deterministic_and_stateless:
  assumes "1 \<le> N"
  shows "(\<exists>xs. length xs = nat N \<and> xs ! 0 = xi
            \<and> (\<forall>w::'w. Euler A (pure g) N xi ti tf w = Inr (xs, w))
            \<and> (\<forall>s::('a, 'w) pystate. \<exists>x s'. Euler_call A (pure g) N xi ti tf s = Inr (x, s')
                   \<and> arrays s' x = xs \<and> allocated s \<le> x \<and> x < allocated s'
                   \<and> (\<forall>a<allocated s. arrays s' a = arrays s a) \<and> world s' = world s))
       \<and> (\<exists>xs. length xs = nat N \<and> xs ! 0 = xi
            \<and> (\<forall>w::'w. RK2 A (pure g) N xi ti tf w = Inr (xs, w))
            \<and> (\<forall>s::('a, 'w) pystate. \<exists>x s'. RK2_call A (pure g) N xi ti tf s = Inr (x, s')
                   \<and> arrays s' x = xs \<and> allocated s \<le> x \<and> x < allocated s'
                   \<and> (\<forall>a<allocated s. arrays s' a = arrays s a) \<and> world s' = world s))
       \<and> (\<exists>xs. length xs = nat N \<and> xs ! 0 = xi
            \<and> (\<forall>w::'w. RK4 A (pure g) N xi ti tf w = Inr (xs, w))
            \<and> (\<forall>s::('a, 'w) pystate. \<exists>x s'. RK4_call A (pure g) N xi ti tf s = Inr (x, s')
                   \<and> arrays s' x = xs \<and> allocated s \<le> x \<and> x < allocated s'
                   \<and> (\<forall>a<allocated s. arrays s' a = arrays s a) \<and> world s' = world s))"
proof (intro conjI)
  obtain xs where xs: "length xs = nat N" "xs ! 0 = xi"
    and run: "\<And>w::'w. Euler A (pure g) N xi ti tf w = Inr (xs, w)"
    using Euler_pure_result [OF assms, of xi A g ti tf] by blast
  have "\<exists>x s'. Euler_call A (pure g) N xi ti tf s = Inr (x, s')
           \<and> arrays s' x = xs \<and> allocated s \<le> x \<and> x < allocated s'
           \<and> (\<forall>a<allocated s. arrays s' a = arrays s a) \<and> world s' = world s" for s :: "('a, 'w) pystate"
    by (rule fresh_result [OF Euler_call_refines run [of "world s"] assms])
  then show "\<exists>xs. length xs = nat N \<and> xs ! 0 = xi
            \<and> (\<forall>w::'w. Euler A (pure g) N xi ti tf w = Inr (xs, w))
            \<and> (\<forall>s::('a, 'w) pystate. \<exists>x s'. Euler_call A (pure g) N xi ti tf s = Inr (x, s')
                   \<and> arrays s' x = xs \<and> allocated s \<le> x \<and> x < allocated s'
                   \<and> (\<forall>a<allocated s. arrays s' a = arrays s a) \<and> world s' = world s)"
    using xs run by blast
next
  obtain xs where xs: "length xs = nat N" "xs ! 0 = xi"
    and run: "\<And>w::'w. RK2 A (pure g) N xi ti tf w = Inr (xs, w)"
    using RK2_pure_result [OF assms, of xi A g ti tf] by blast
  have "\<exists>x s'. RK2_call A (pure g) N xi ti tf s = Inr (x, s')
           \<and> arrays s' x = xs \<and> allocated s \<le> x \<and> x < allocated s'
           \<and> (\<forall>a<allocated s. arrays s' a = arrays s a) \<and> world s' = world s" for s :: "('a, 'w) pystate"
    by (rule fresh_result [OF RK2_call_refines run [of "world s"] assms])
  then show "\<exists>xs. length xs = nat N \<and> xs ! 0 = xi
            \<and> (\<forall>w::'w. RK2 A (pure g) N xi ti tf w = Inr (xs, w))
            \<and> (\<forall>s::('a, 'w) pystate. \<exists>x s'. RK2_call A (pure g) N xi ti tf s = Inr (x, s')
                   \<and> arrays s' x = xs \<and> allocated s \<le> x \<and> x < allocated s'
                   \<and> (\<forall>a<allocated s. arrays s' a = arrays s a) \<and> world s' = world s)"
    using xs run by blast
next
  obtain xs where xs: "length xs = nat N" "xs ! 0 = xi"
    and run: "\<And>w::'w. RK4 A (pure g) N xi ti tf w = Inr (xs, w)"
    using RK4_pure_result [OF assms, of xi A g ti tf] by blast
  have "\<exists>x s'. RK4_call A (pure g) N xi ti tf s = Inr (x, s')
           \<and> arrays s' x = xs \<and> allocated s \<le> x \<and> x < allocated s'
           \<and> (\<forall>a<allocated s. arrays s' a = arrays s a) \<and> world s' = world s" for s :: "('a, 'w) pystate"
    by (rule fresh_result [OF RK4_call_refines run [of "world s"] assms])
  then show "\<exists>xs. length xs = nat N \<and> xs ! 0 = xi
            \<and> (\<forall>w::'w. RK4 A (pure g) N xi ti tf w = Inr (xs, w))
            \<and> (\<forall>s::('a, 'w) pystate. \<exists>x s'. RK4_call A (pure g) N xi ti tf s = Inr (x, s')
                   \<and> arrays s' x = xs \<and> allocated s \<le> x \<and> x < allocated s'
                   \<and> (\<forall>a<allocated s. arrays s' a = arrays s a) \<and> world s' = world s)"
    using xs run by blast
qed


text \<open>A call of \<open>RK4\<close> on the empty store and then two calls of \<open>Euler\<close>, all with the
  docstrings' arguments \<open>(f, 10, 0.0, 0.0, 10.0)\<close> and \<open>f(x, t) = x + t\<close>.\<close>

theorem deterministic_and_stateless_witness:
  "\<exists>y s1 x1 s2 x2 s3.
     RK4_call binary64 (pure add64) 10 (Finite 0) (Finite 0) (Finite 10)
       \<lparr>arrays = (\<lambda>a. []), allocated = 0, world = (0::nat)\<rparr> = Inr (y, s1)
   \<and> Euler_call binary64 (pure add64) 10 (Finite 0) (Finite 0) (Finite 10) s1 = Inr (x1, s2)
   \<and> Euler_call binary64 (pure add64) 10 (Finite 0) (Finite 0) (Finite 10) s2 = Inr (x2, s3)
   \<and> arrays s3 x2 = arrays s2 x1 \<and> arrays s3 x1 = arrays s2 x1 \<and> x1 < x2
   \<and> length (arrays s3 x2) = 10 \<and> arrays s3 x2 ! 0 = Finite 0
   \<and> arrays s3 y = arrays s1 y \<and> world s3 = 0"
proof -
  have N: "(1::int) \<le> 10" by simp
  define s0 :: "(float64, nat) pystate"
    where "s0 = \<lparr>arrays = (\<lambda>a. []), allocated = 0, world = 0\<rparr>"
  note T = deterministic_and_stateless [OF N, of "Finite 0" binary64 add64 "Finite 0" "Finite 10",
      where ?'w = nat]
  from T obtain xs where xs: "length xs = nat 10" "xs ! 0 = Finite 0"
    and E: "\<And>s::(float64, nat) pystate.
         \<exists>x s'. Euler_call binary64 (pure add64) 10 (Finite 0) (Finite 0) (Finite 10) s = Inr (x, s')
           \<and> arrays s' x = xs \<and> allocated s \<le> x \<and> x < allocated s'
           \<and> (\<forall>a<allocated s. arrays s' a = arrays s a) \<and> world s' = world s"
    by blast
  from T obtain y s1
    where c0: "RK4_call binary64 (pure add64) 10 (Finite 0) (Finite 0) (Finite 10) s0 = Inr (y, s1)"
      and y: "y < allocated s1" and w1: "world s1 = world s0"
    by blast
  from E [of s1] obtain x1 s2
    where c1: "Euler_call binary64 (pure add64) 10 (Finite 0) (Finite 0) (Finite 10) s1 = Inr (x1, s2)"
      and r1: "arrays s2 x1 = xs" and a1: "allocated s1 \<le> x1" "x1 < allocated s2"
      and f1: "\<forall>a<allocated s1. arrays s2 a = arrays s1 a" and w2: "world s2 = world s1"
    by blast
  from E [of s2] obtain x2 s3
    where c2: "Euler_call binary64 (pure add64) 10 (Finite 0) (Finite 0) (Finite 10) s2 = Inr (x2, s3)"
      and r2: "arrays s3 x2 = xs" and a2: "allocated s2 \<le> x2" "x2 < allocated s3"
      and f2: "\<forall>a<allocated s2. arrays s3 a = arrays s2 a" and w3: "world s3 = world s2"
    by blast
  have "arrays s3 x2 = arrays s2 x1"
    using r1 r2 by simp
  moreover have "arrays s3 x1 = arrays s2 x1"
    using f2 a1 by simp
  moreover have "x1 < x2"
    using a1 a2 by simp
  moreover have "length (arrays s3 x2) = 10" "arrays s3 x2 ! 0 = Finite 0"
    using r2 xs by simp_all
  moreover have "arrays s3 y = arrays s1 y"
    using f1 f2 y a1 by simp
  moreover have "world s3 = 0"
    using w1 w2 w3 by (simp add: s0_def)
  ultimately show ?thesis
    using c0 c1 c2 unfolding s0_def by blast
qed

section \<open>Claims that rounding decides\<close>

text \<open>
  Claim C5, as amended. For \<open>N \<ge> 1\<close> and all \<open>ti\<close>, \<open>tf\<close> the grid has exactly \<open>N\<close> values.
  For \<open>N = 1\<close> it is the single value \<open>0 * (tf - ti) + ti\<close>. For \<open>N \<ge> 2\<close> its last value
  is \<open>tf\<close> and its \<open>i\<close>-th value, \<open>i < N - 1\<close>, is \<open>i * step + ti\<close> with
  \<open>step = (tf - ti) / (N - 1)\<close>, or \<open>(i / (N - 1)) * (tf - ti) + ti\<close> when the step is zero,
  each operation rounded as the arithmetic rounds it. Without rounding the \<open>i\<close>-th value
  is \<open>ti + i * (tf - ti) / (N - 1)\<close>, so the first value is \<open>ti\<close> and the grid is strictly
  monotonic when \<open>ti \<noteq> tf\<close>. In binary64 the first value equals \<open>ti\<close> when \<open>ti\<close>,
  \<open>tf - ti\<close> and the step are finite (\<open>N\<close> up to \<open>2 ^ 53\<close>); it is \<open>ti\<close> itself unless \<open>ti\<close>
  is \<open>-0.0\<close>, when it may be \<open>0.0\<close>.
\<close>

theorem linspace_grid:
  fixes a b :: "'b::linordered_field"
  assumes "1 \<le> N"
  shows "(\<exists>t. linspace A ti tf N = Inr t \<and> int (length t) = N
            \<and> (N = 1 \<longrightarrow> t = [fadd A (fmul A (from_int A 0) (fsub A tf ti)) ti])
            \<and> (2 \<le> N \<longrightarrow> last t = tf
                  \<and> (\<forall>i. int i < N - 1 \<longrightarrow> t ! i =
                        fadd A (if feq A (fdiv A (fsub A tf ti) (from_int A (N - 1))) (from_int A 0)
                                then fmul A (fdiv A (from_int A (int i)) (from_int A (N - 1)))
                                       (fsub A tf ti)
                                else fmul A (from_int A (int i))
                                       (fdiv A (fsub A tf ti) (from_int A (N - 1)))) ti)))
       \<and> (\<exists>t. linspace exact a b N = Inr t
            \<and> (\<forall>i<nat N. t ! i = a + of_nat i * ((b - a) / (of_int N - 1)))
            \<and> t ! 0 = a
            \<and> (a \<noteq> b \<longrightarrow> strictly_monotonic exact t))
       \<and> (is_finite x \<and> round64 (value64 x) = Finite (value64 x)
            \<and> is_finite (fsub binary64 y x)
            \<and> (N = 1 \<or> N \<le> 2 ^ 53
                  \<and> is_finite (fdiv binary64 (fsub binary64 y x) (from_int binary64 (N - 1))))
           \<longrightarrow> (\<exists>t. linspace binary64 x y N = Inr t \<and> feq binary64 (t ! 0) x
                    \<and> (t ! 0 = x \<or> x = NegZero)))"
proof (intro conjI impI)
  obtain t where t: "linspace A ti tf N = Inr t" and len: "length t = nat N"
    using linspace_Inr [of N A ti tf] assms by auto
  have "int (length t) = N"
    using len assms by simp
  moreover have "last t = tf" if "2 \<le> N"
    using linspace_last [OF that, of A ti tf] t by simp
  moreover have "t = [fadd A (fmul A (from_int A 0) (fsub A tf ti)) ti]" if "N = 1"
    using t that by (simp add: linspace_one)
  moreover have "t ! i =
        fadd A (if feq A (fdiv A (fsub A tf ti) (from_int A (N - 1))) (from_int A 0)
                then fmul A (fdiv A (from_int A (int i)) (from_int A (N - 1))) (fsub A tf ti)
                else fmul A (from_int A (int i))
                       (fdiv A (fsub A tf ti) (from_int A (N - 1)))) ti"
    if "2 \<le> N" and "int i < N - 1" for i
    using that t by (rule linspace_nth)
  ultimately show "\<exists>t. linspace A ti tf N = Inr t \<and> int (length t) = N
            \<and> (N = 1 \<longrightarrow> t = [fadd A (fmul A (from_int A 0) (fsub A tf ti)) ti])
            \<and> (2 \<le> N \<longrightarrow> last t = tf
                  \<and> (\<forall>i. int i < N - 1 \<longrightarrow> t ! i =
                        fadd A (if feq A (fdiv A (fsub A tf ti) (from_int A (N - 1))) (from_int A 0)
                                then fmul A (fdiv A (from_int A (int i)) (from_int A (N - 1)))
                                       (fsub A tf ti)
                                else fmul A (from_int A (int i))
                                       (fdiv A (fsub A tf ti) (from_int A (N - 1)))) ti))"
    using t by blast
next
  obtain t where t: "linspace exact a b N = Inr t" and len: "length t = nat N"
    and nth: "\<forall>i<nat N. t ! i = a + of_nat i * ((b - a) / (of_int N - 1))"
    using linspace_exact [OF assms, of a b] by blast
  have "t ! 0 = a"
    using nth assms by simp
  moreover have "strictly_monotonic exact t" if "a \<noteq> b"
    using linspace_exact_monotonic [OF assms t that] .
  ultimately show "\<exists>t. linspace exact a b N = Inr t
            \<and> (\<forall>i<nat N. t ! i = a + of_nat i * ((b - a) / (of_int N - 1)))
            \<and> t ! 0 = a
            \<and> (a \<noteq> b \<longrightarrow> strictly_monotonic exact t)"
    using t nth by blast
next
  assume H: "is_finite x \<and> round64 (value64 x) = Finite (value64 x)
            \<and> is_finite (fsub binary64 y x)
            \<and> (N = 1 \<or> N \<le> 2 ^ 53
                  \<and> is_finite (fdiv binary64 (fsub binary64 y x) (from_int binary64 (N - 1))))"
  then have "N = 1 \<or> 2 \<le> N \<and> N \<le> 2 ^ 53
               \<and> is_finite (div64 (sub64 y x) (round64 (of_int (N - 1))))"
    using assms by (auto simp: binary64_def)
  moreover have "is_finite (sub64 y x)"
    using H by (simp add: binary64_def)
  ultimately have "\<exists>t. linspace binary64 x y N = Inr t \<and> eq64 (t ! 0) x
                    \<and> (t ! 0 = x \<or> x = NegZero)"
    using H by (intro linspace64_first) simp_all
  then show "\<exists>t. linspace binary64 x y N = Inr t \<and> feq binary64 (t ! 0) x
                    \<and> (t ! 0 = x \<or> x = NegZero)"
    by (simp add: binary64_def)
qed

text \<open>The grid of the docstrings' calls, \<open>linspace(0.0, 10.0, 10)\<close>, in binary64, where
  \<open>t[3]\<close> is \<open>3.3333333333333335\<close>, and without rounding.\<close>

theorem linspace_grid_witness:
  "(\<exists>t. linspace binary64 (Finite 0) (Finite 10) 10 = Inr t \<and> int (length t) = 10
      \<and> last t = Finite 10
      \<and> t ! 3 = Finite (7505999378950827 / 2251799813685248))
 \<and> (\<exists>t. linspace exact (0::rat) 10 10 = Inr t
      \<and> t ! 3 = 0 + of_nat 3 * ((10 - 0) / (of_int 10 - 1))
      \<and> t ! 0 = 0
      \<and> strictly_monotonic exact t)
 \<and> (\<exists>t. linspace binary64 (Finite 0) (Finite 10) 10 = Inr t \<and> feq binary64 (t ! 0) (Finite 0)
      \<and> t ! 0 = Finite 0)"
proof -
  have N: "(1::int) \<le> 10" by simp
  have H: "is_finite (Finite 0) \<and> round64 (value64 (Finite 0)) = Finite (value64 (Finite 0))
            \<and> is_finite (fsub binary64 (Finite 10) (Finite 0))
            \<and> ((10::int) = 1 \<or> (10::int) \<le> 2 ^ 53
                  \<and> is_finite (fdiv binary64 (fsub binary64 (Finite 10) (Finite 0))
                                 (from_int binary64 (10 - 1))))"
    by (simp add: binary64_def sub64_def round64_ten_ninths)
  note T = linspace_grid [OF N, of binary64 "Finite 0" "Finite 10" "0::rat" 10 "Finite 0" "Finite 10"]
  from T obtain t where t: "linspace binary64 (Finite 0) (Finite 10) 10 = Inr t"
    and len: "int (length t) = 10" and lst: "last t = Finite 10"
    and nthb: "\<forall>i. int i < 10 - 1 \<longrightarrow> t ! i =
          fadd binary64
            (if feq binary64 (fdiv binary64 (fsub binary64 (Finite 10) (Finite 0))
                                (from_int binary64 (10 - 1))) (from_int binary64 0)
             then fmul binary64 (fdiv binary64 (from_int binary64 (int i)) (from_int binary64 (10 - 1)))
                    (fsub binary64 (Finite 10) (Finite 0))
             else fmul binary64 (from_int binary64 (int i))
                    (fdiv binary64 (fsub binary64 (Finite 10) (Finite 0))
                       (from_int binary64 (10 - 1)))) (Finite 0)"
    by auto
  have three: "t ! 3 = Finite (7505999378950827 / 2251799813685248)"
    using nthb [rule_format, of 3]
    by (simp add: binary64_def sub64_def round64_ten_ninths round64_three_steps)
  from T obtain t' where t': "linspace exact (0::rat) 10 10 = Inr t'"
    and nth: "\<forall>i<nat 10. t' ! i = 0 + of_nat i * ((10 - 0) / (of_int 10 - 1))"
    and first: "t' ! 0 = 0" and mono: "strictly_monotonic exact t'"
    by auto
  have third: "t' ! 3 = 0 + of_nat 3 * ((10 - 0) / (of_int 10 - 1))"
    using nth [rule_format, of 3] by simp
  from T H obtain t'' where t'': "linspace binary64 (Finite 0) (Finite 10) 10 = Inr t''"
    and eq: "feq binary64 (t'' ! 0) (Finite 0)" and first'': "t'' ! 0 = Finite 0"
    by auto
  show ?thesis
    using t len lst three t' third first mono t'' eq first'' by blast
qed

text \<open>
  Claim C5 as stated fails in binary64. Two neighbouring grid points can round to the
  same float: \<open>linspace(1.0, 1.0000000000000002, 3)\<close> is \<open>[1.0, 1.0, 1.0000000000000002]\<close>,
  since the midpoint \<open>1 + 2\<^sup>-\<^sup>5\<^sup>3\<close> rounds to \<open>1.0\<close>. With a subnormal step the grid can
  rise and then fall: \<open>linspace(0.0, 1.5e-323, 6)\<close> has the step \<open>0.6 * 2\<^sup>-\<^sup>1\<^sup>0\<^sup>7\<^sup>4\<close>, which
  rounds to \<open>2\<^sup>-\<^sup>1\<^sup>0\<^sup>7\<^sup>4\<close>, so its fifth value is \<open>4 * 2\<^sup>-\<^sup>1\<^sup>0\<^sup>7\<^sup>4\<close>, above the last value
  \<open>tf = 3 * 2\<^sup>-\<^sup>1\<^sup>0\<^sup>7\<^sup>4\<close>. When \<open>tf - ti\<close> overflows the first value is \<open>0 * inf + ti\<close>, which
  is NaN: \<open>linspace(-2.0**1023, 2.0**1023, 2)\<close> is \<open>[nan, 2.0**1023]\<close>. And with \<open>N = 1\<close>
  the grid is not \<open>[ti]\<close> when \<open>tf\<close> is not finite: \<open>linspace(0.0, nan, 1)\<close> is \<open>[nan]\<close>.
\<close>

theorem linspace_grid_counterexample:
  "linspace binary64 (Finite 1) (Finite (4503599627370497 / 4503599627370496)) 3 =
     Inr [Finite 1, Finite 1, Finite (4503599627370497 / 4503599627370496)]
 \<and> Finite 1 \<noteq> Finite (4503599627370497 / 4503599627370496)
 \<and> \<not> strictly_monotonic binary64
       [Finite 1, Finite 1, Finite (4503599627370497 / 4503599627370496)]
 \<and> linspace binary64 (Finite 0) (Finite (3 * pow2 (- 1074))) 6 =
     Inr [Finite 0, Finite (pow2 (- 1074)), Finite (2 * pow2 (- 1074)),
          Finite (3 * pow2 (- 1074)), Finite (4 * pow2 (- 1074)), Finite (3 * pow2 (- 1074))]
 \<and> flt binary64 (Finite 0) (Finite (3 * pow2 (- 1074)))
 \<and> flt binary64 (Finite (3 * pow2 (- 1074))) (Finite (4 * pow2 (- 1074)))
 \<and> \<not> strictly_monotonic binary64
       [Finite 0, Finite (pow2 (- 1074)), Finite (2 * pow2 (- 1074)),
        Finite (3 * pow2 (- 1074)), Finite (4 * pow2 (- 1074)), Finite (3 * pow2 (- 1074))]
 \<and> linspace binary64 (Finite (- (2 ^ 1023))) (Finite (2 ^ 1023)) 2 =
     Inr [NaN, Finite (2 ^ 1023)]
 \<and> linspace binary64 (Finite 0) NaN 1 = Inr [NaN]"
  using linspace64_collapse collapse_not_monotonic linspace64_overflow linspace64_nan
    linspace64_subnormal
  by (simp add: pow2_def binary64_def strictly_monotonic_def)

text \<open>
  Claim C6, as amended. For the constant derivative \<open>f(x, t) = c\<close> and \<open>N \<ge> 1\<close>,
  \<open>Euler\<close> returns the array whose \<open>i\<close>-th element is \<open>xi\<close> with \<open>h * c\<close> added \<open>i\<close>
  times, each sum rounded, where \<open>h = (tf - ti) / N\<close>. Without rounding that is
  \<open>x[i] = xi + i * h * c\<close>.
\<close>

theorem Euler_constant_derivative:
  fixes c' :: "'b::linordered_field"
  assumes "1 \<le> N"
  shows "(\<exists>x. Euler A (pure (\<lambda>x t. c)) N xi ti tf w = Inr (x, w)
            \<and> (\<forall>i<nat N. x ! i =
                  ((\<lambda>v. fadd A v (fmul A (fdiv A (fsub A tf ti) (from_int A N)) c)) ^^ i) xi))
       \<and> (\<exists>x. Euler exact (pure (\<lambda>x t. c')) N xi' ti' tf' w = Inr (x, w)
            \<and> (\<forall>i<nat N. x ! i = xi' + of_nat i * ((tf' - ti') / of_int N) * c'))"
proof
  show "\<exists>x. Euler A (pure (\<lambda>x t. c)) N xi ti tf w = Inr (x, w)
            \<and> (\<forall>i<nat N. x ! i =
                  ((\<lambda>v. fadd A v (fmul A (fdiv A (fsub A tf ti) (from_int A N)) c)) ^^ i) xi)"
    by (simp add: Euler_constant_run [OF assms])
  have "((\<lambda>v. fadd exact v (fmul exact (fdiv exact (fsub exact tf' ti') (from_int exact N)) c')) ^^ i) xi'
        = xi' + of_nat i * ((tf' - ti') / of_int N) * c'" for i
    using funpow_add_const [where d = "(tf' - ti') / of_int N * c'" and i = i and a = xi']
    by (simp add: exact_def algebra_simps)
  then show "\<exists>x. Euler exact (pure (\<lambda>x t. c')) N xi' ti' tf' w = Inr (x, w)
            \<and> (\<forall>i<nat N. x ! i = xi' + of_nat i * ((tf' - ti') / of_int N) * c')"
    by (simp add: Euler_constant_run [OF assms])
qed

text \<open>\<open>Euler(f, 7, 0.0, 0.0, 7.0)\<close> with \<open>f(x, t) = 0.1\<close>, in binary64 and without
  rounding.\<close>

theorem Euler_constant_derivative_witness:
  "(\<exists>x. Euler binary64 (pure (\<lambda>x t. Finite (3602879701896397 / 36028797018963968))) 7
           (Finite 0) (Finite 0) (Finite 7) () = Inr (x, ())
      \<and> x ! 2 =
         ((\<lambda>v. fadd binary64 v
                  (fmul binary64
                     (fdiv binary64 (fsub binary64 (Finite 7) (Finite 0)) (from_int binary64 7))
                     (Finite (3602879701896397 / 36028797018963968)))) ^^ 2) (Finite 0))
 \<and> (\<exists>x. Euler exact (pure (\<lambda>x t. 1 / 10 :: rat)) 7 0 0 7 () = Inr (x, ())
      \<and> x ! 6 = 0 + of_nat 6 * ((7 - 0) / of_int 7) * (1 / 10))"
proof -
  have N: "(1::int) \<le> 7" by simp
  from Euler_constant_derivative [OF N, of binary64
      "Finite (3602879701896397 / 36028797018963968)" "Finite 0" "Finite 0" "Finite 7" "()"
      "1 / 10 :: rat" 0 0 7]
  obtain x x' where x: "Euler binary64 (pure (\<lambda>x t. Finite (3602879701896397 / 36028797018963968))) 7
           (Finite 0) (Finite 0) (Finite 7) () = Inr (x, ())"
    and nth: "\<forall>i<nat 7. x ! i =
         ((\<lambda>v. fadd binary64 v
                  (fmul binary64
                     (fdiv binary64 (fsub binary64 (Finite 7) (Finite 0)) (from_int binary64 7))
                     (Finite (3602879701896397 / 36028797018963968)))) ^^ i) (Finite 0)"
    and x': "Euler exact (pure (\<lambda>x t. 1 / 10 :: rat)) 7 0 0 7 () = Inr (x', ())"
    and nth': "\<forall>i<nat 7. x' ! i = 0 + of_nat i * ((7 - 0) / of_int 7) * (1 / 10)"
    by blast
  have two: "x ! 2 =
         ((\<lambda>v. fadd binary64 v
                  (fmul binary64
                     (fdiv binary64 (fsub binary64 (Finite 7) (Finite 0)) (from_int binary64 7))
                     (Finite (3602879701896397 / 36028797018963968)))) ^^ 2) (Finite 0)"
    using nth [rule_format, of 2] by simp
  have six: "x' ! 6 = 0 + of_nat 6 * ((7 - 0) / of_int 7) * (1 / 10)"
    using nth' [rule_format, of 6] by simp
  show ?thesis
    using x two x' six by blast
qed

text \<open>
  Claim C6 as stated fails in binary64. \<open>Euler(f, 7, 0.0, 0.0, 7.0)\<close> with
  \<open>f(x, t) = 0.1\<close> has \<open>h = 1.0\<close> and returns
  \<open>[0.0, 0.1, 0.2, 0.30000000000000004, 0.4, 0.5, 0.6]\<close>, but \<open>0.0 + 6 * 1.0 * 0.1\<close> is
  \<open>0.6000000000000001\<close> in binary64, and \<open>6\<close> times the float \<open>0.1\<close> is not the
  float \<open>0.6\<close> as rational numbers either.
\<close>

theorem Euler_constant_derivative_counterexample:
  "Euler binary64 (pure (\<lambda>x t. Finite (3602879701896397 / 36028797018963968))) 7
     (Finite 0) (Finite 0) (Finite 7) () =
   Inr ([Finite 0,
         Finite (3602879701896397 / 36028797018963968),
         Finite (3602879701896397 / 18014398509481984),
         Finite (1351079888211149 / 4503599627370496),
         Finite (3602879701896397 / 9007199254740992),
         Finite (1 / 2),
         Finite (5404319552844595 / 9007199254740992)], ())
 \<and> fadd binary64 (Finite 0)
      (fmul binary64
         (fmul binary64 (from_int binary64 6)
            (fdiv binary64 (fsub binary64 (Finite 7) (Finite 0)) (from_int binary64 7)))
         (Finite (3602879701896397 / 36028797018963968))) =
    Finite (1351079888211149 / 2251799813685248)
 \<and> Finite (5404319552844595 / 9007199254740992) \<noteq> Finite (1351079888211149 / 2251799813685248)
 \<and> (5404319552844595 / 9007199254740992 :: rat) \<noteq>
    0 + 6 * ((7 - 0) / 7) * (3602879701896397 / 36028797018963968)"
proof -
  have N: "(1::int) \<le> 7" by simp
  have h: "fdiv binary64 (fsub binary64 (Finite 7) (Finite 0)) (from_int binary64 7) = Finite 1"
    by (simp add: binary64_def sub64_def)
  have l: "[0..<nat 7] = [0, 1, 2, 3, 4, 5, 6]"
    by (simp add: upt_rec)
  have "Euler binary64 (pure (\<lambda>x t. Finite (3602879701896397 / 36028797018963968))) 7
     (Finite 0) (Finite 0) (Finite 7) () =
   Inr ([Finite 0,
         Finite (3602879701896397 / 36028797018963968),
         Finite (3602879701896397 / 18014398509481984),
         Finite (1351079888211149 / 4503599627370496),
         Finite (3602879701896397 / 9007199254740992),
         Finite (1 / 2),
         Finite (5404319552844595 / 9007199254740992)], ())"
    unfolding Euler_constant_run [OF N] h l
    by (simp add: binary64_def eval_nat_numeral round64_tenth round64_tenth_sum2
        round64_tenth_sum3 round64_tenth_sum4 round64_tenth_sum5 round64_tenth_sum6)
  moreover have "fadd binary64 (Finite 0)
      (fmul binary64
         (fmul binary64 (from_int binary64 6)
            (fdiv binary64 (fsub binary64 (Finite 7) (Finite 0)) (from_int binary64 7)))
         (Finite (3602879701896397 / 36028797018963968))) =
    Finite (1351079888211149 / 2251799813685248)"
    unfolding h
    by (simp add: binary64_def round64_six_tenths round64_exact [of 1351079888211149 "- 51", unfolded pow2_def, simplified])
  ultimately show ?thesis
    by simp
qed

text \<open>
  Claim C10, as amended. For a constant derivative \<open>f(x, t) = c\<close>, \<open>Euler\<close> and \<open>RK2\<close>
  return the same result in every arithmetic. \<open>RK4\<close> returns that result too whenever
  \<open>(1/6) * (k + 2*k + 2*k + k)\<close> evaluates to \<open>k\<close> for \<open>k = h * c\<close>, as it always does
  without rounding.
\<close>

theorem constant_derivative_steppers:
  fixes c' :: "'b::linordered_field"
  shows "Euler A (pure (\<lambda>x t. c)) N xi ti tf w = RK2 A (pure (\<lambda>x t. c)) N xi ti tf w
       \<and> ((let k = fmul A (fdiv A (fsub A tf ti) (from_int A N)) c
            in fmul A (fdiv A (from_int A 1) (from_int A 6))
                 (fadd A (fadd A (fadd A k (fmul A (from_int A 2) k))
                            (fmul A (from_int A 2) k)) k) = k)
           \<longrightarrow> RK4 A (pure (\<lambda>x t. c)) N xi ti tf w = Euler A (pure (\<lambda>x t. c)) N xi ti tf w)
       \<and> RK4 exact (pure (\<lambda>x t. c')) N xi' ti' tf' w =
          Euler exact (pure (\<lambda>x t. c')) N xi' ti' tf' w"
proof (cases "1 \<le> N")
  case True
  have "fmul exact (fdiv exact (from_int exact 1) (from_int exact 6))
          (fadd exact (fadd exact (fadd exact k (fmul exact (from_int exact 2) k))
                         (fmul exact (from_int exact 2) k)) k) = k" for k :: 'b
    by (simp add: exact_def)
  then show ?thesis
    by (simp add: Euler_constant_run [OF True] RK2_constant_run [OF True]
        RK4_constant_run [OF True] Let_def)
next
  case False
  then have "N \<le> 0" by simp
  then show ?thesis
    by (simp add: steppers_agree_on_errors [of N])
qed

text \<open>With \<open>f(x, t) = 1.0\<close> and \<open>h = 1.0\<close> the sum of the stages is \<open>6.0\<close>, and the float
  \<open>1/6\<close> times \<open>6.0\<close> rounds to \<open>1.0\<close>.\<close>

theorem constant_derivative_steppers_witness:
  "Euler binary64 (pure (\<lambda>x t. Finite 1)) 2 (Finite 0) (Finite 0) (Finite 2) () =
   RK2 binary64 (pure (\<lambda>x t. Finite 1)) 2 (Finite 0) (Finite 0) (Finite 2) ()
 \<and> RK4 binary64 (pure (\<lambda>x t. Finite 1)) 2 (Finite 0) (Finite 0) (Finite 2) () =
   Euler binary64 (pure (\<lambda>x t. Finite 1)) 2 (Finite 0) (Finite 0) (Finite 2) ()
 \<and> RK4 exact (pure (\<lambda>x t. 1 / 10 :: rat)) 2 0 0 2 () =
   Euler exact (pure (\<lambda>x t. 1 / 10 :: rat)) 2 0 0 2 ()"
proof -
  have h: "fmul binary64 (fdiv binary64 (fsub binary64 (Finite 2) (Finite 0)) (from_int binary64 2))
             (Finite 1) = Finite 1"
    by (simp add: binary64_def sub64_def)
  have k: "(let k = fmul binary64
                     (fdiv binary64 (fsub binary64 (Finite 2) (Finite 0)) (from_int binary64 2))
                     (Finite 1)
            in fmul binary64 (fdiv binary64 (from_int binary64 1) (from_int binary64 6))
                 (fadd binary64 (fadd binary64 (fadd binary64 k (fmul binary64 (from_int binary64 2) k))
                            (fmul binary64 (from_int binary64 2) k)) k) = k)"
    unfolding h Let_def
    by (simp add: binary64_def round64_sixth round64_sixth_of_six)
  show ?thesis
    using constant_derivative_steppers [of binary64 "Finite 1" 2 "Finite 0" "Finite 0" "Finite 2" "()"
        "1 / 10 :: rat" 0 0 2] k
    by simp
qed

text \<open>
  Claim C10 as stated fails in binary64. With \<open>f(x, t) = 0.1\<close>, \<open>N = 2\<close>, \<open>xi = ti = 0.0\<close>
  and \<open>tf = 2.0\<close> (so \<open>h = 1.0\<close>), \<open>Euler\<close> returns \<open>[0.0, 0.1]\<close> and \<open>RK4\<close> returns
  \<open>[0.0, 0.09999999999999999]\<close>: the stages sum to \<open>0.6\<close>, and the float \<open>1/6\<close> times
  \<open>0.6\<close> rounds below \<open>0.1\<close>.
\<close>

theorem constant_derivative_steppers_counterexample:
  "Euler binary64 (pure (\<lambda>x t. Finite (3602879701896397 / 36028797018963968))) 2
     (Finite 0) (Finite 0) (Finite 2) () =
   Inr ([Finite 0, Finite (3602879701896397 / 36028797018963968)], ())
 \<and> RK4 binary64 (pure (\<lambda>x t. Finite (3602879701896397 / 36028797018963968))) 2
     (Finite 0) (Finite 0) (Finite 2) () =
   Inr ([Finite 0, Finite (7205759403792793 / 72057594037927936)], ())
 \<and> Euler binary64 (pure (\<lambda>x t. Finite (3602879701896397 / 36028797018963968))) 2
     (Finite 0) (Finite 0) (Finite 2) () \<noteq>
   RK4 binary64 (pure (\<lambda>x t. Finite (3602879701896397 / 36028797018963968))) 2
     (Finite 0) (Finite 0) (Finite 2) ()"
proof -
  have N: "(1::int) \<le> 2" by simp
  have h: "fdiv binary64 (fsub binary64 (Finite 2) (Finite 0)) (from_int binary64 2) = Finite 1"
    by (simp add: binary64_def sub64_def)
  have l: "[0..<nat 2] = [0, 1]"
    by (simp add: upt_rec)
  have E: "Euler binary64 (pure (\<lambda>x t. Finite (3602879701896397 / 36028797018963968))) 2
     (Finite 0) (Finite 0) (Finite 2) () =
   Inr ([Finite 0, Finite (3602879701896397 / 36028797018963968)], ())"
    unfolding Euler_constant_run [OF N] h l
    by (simp add: binary64_def round64_tenth)
  have R: "RK4 binary64 (pure (\<lambda>x t. Finite (3602879701896397 / 36028797018963968))) 2
     (Finite 0) (Finite 0) (Finite 2) () =
   Inr ([Finite 0, Finite (7205759403792793 / 72057594037927936)], ())"
    unfolding RK4_constant_run [OF N] h l Let_def
    by (simp add: binary64_def round64_tenth round64_tenth_sum2 round64_tenth_sum3
        round64_rk4_sum2 round64_tenth_sum6 round64_sixth round64_rk4_incr
        round64_exact [of 7205759403792793 "- 56", unfolded pow2_def, simplified])
  show ?thesis
    unfolding E R by simp
qed

end
